theory Spec2Isabelle
  imports Complex_Main "HOL-Library.Multiset"
begin

section \<open>Common data model\<close>

text \<open>
  The repository is numpy code. Arrays are modelled as nested lists along their axes
  (the outermost list is the leading axis). Python exceptions are values of
  \<open>error\<close>; a function that can raise returns \<open>error + 'a\<close> with \<open>Inl\<close> for
  the exception. Array entries are modelled by exact reals: where a function only moves
  or combines entries, rounding, overflow and signed zeros are outside the model. The
  one non-finite value the code is known to produce from finite data, NaN from \<open>0/0\<close>
  in \<open>normalize_data\<close>, is modelled explicitly in the section on normalisation. The
  splitter is different: its outcome (whether the assertion holds, where the split
  points fall) is decided by rounded float arithmetic, so its ratios are Python floats
  with the rounding of every operation written out (section on Python floats).
\<close>

datatype error =
  IndexError | ValueError | AssertionError | ZeroDivisionError | OverflowError

text \<open>Whether a call returned (no exception).\<close>

definition returned :: "error + 'a \<Rightarrow> bool" where
  "returned r = (case r of Inl _ \<Rightarrow> False | Inr _ \<Rightarrow> True)"

text \<open>Number of columns of a 2D array given as a list of rows (\<open>shape[-1]\<close>).\<close>

definition width :: "'a list list \<Rightarrow> nat" where
  "width a = (case a of [] \<Rightarrow> 0 | r # _ \<Rightarrow> length r)"

text \<open>\<open>a[i, j]\<close> for non-negative indices: numpy raises IndexError out of range.\<close>

definition get2 :: "'a list list \<Rightarrow> nat \<Rightarrow> nat \<Rightarrow> error + 'a" where
  "get2 a i j = (if i < length a \<and> j < length (a ! i) then Inr (a ! i ! j) else Inl IndexError)"

section \<open>Phase-sign canonicalisation: \<open>general_extrema\<close> (engine/utils.py)\<close>

text \<open>
  \<^verbatim>\<open>
  if E[E.shape[-2]//2, E.shape[-1]//2] > E[0, 0]:
      E -= np.max(E)
  elif E[E.shape[-2]//2, E.shape[-1]//2] < 0:
      E -= np.min(E)
  E = np.abs(E)
  return E
  \<close>
  \<open>np.max\<close> and \<open>np.min\<close> reduce over the whole array. Both indexings happen in
  the first condition; on an array with no element they raise IndexError.
\<close>

definition general_extrema :: "real list list \<Rightarrow> error + real list list" where
  "general_extrema E =
     (case get2 E (length E div 2) (width E div 2) of
        Inl e \<Rightarrow> Inl e
      | Inr center \<Rightarrow>
          (case get2 E 0 0 of
             Inl e \<Rightarrow> Inl e
           | Inr corner \<Rightarrow>
               (let E1 = (if center > corner
                          then map (map (\<lambda>x. x - Max (set (concat E)))) E
                          else if center < 0
                          then map (map (\<lambda>x. x - Min (set (concat E)))) E
                          else E)
                in Inr (map (map abs) E1))))"

section \<open>Python floats\<close>

text \<open>
  A Python float is an IEEE 754 binary64 number: 53 significant bits, exponents from
  -1022 to 1023, subnormal numbers below \<open>2^-1022\<close>. A finite float is modelled by the
  real number it denotes. Every arithmetic operation returns the float nearest to the
  exact result, ties going to the even significand.

  \<open>rne y\<close> is the integer nearest to \<open>y\<close>, ties to even. \<open>expo x\<close> is the binary
  exponent of \<open>x\<close>, not below -1022 (the subnormal range), and \<open>ulp x\<close> the spacing of
  the floats around \<open>x\<close>. \<open>round64 x\<close> is \<open>x\<close> rounded to 53 bits with the exponent not
  bounded above. When the rounded magnitude exceeds the largest float the operation
  returns an infinity: \<open>to_float\<close> gives \<open>None\<close> then.
\<close>

definition rne :: "real \<Rightarrow> int" where
  "rne y = (let f = \<lfloor>y\<rfloor>; d = y - of_int f in
            if d < 1/2 then f else if 1/2 < d then f + 1 else if even f then f else f + 1)"

definition expo :: "real \<Rightarrow> int" where
  "expo x = max \<lfloor>log 2 \<bar>x\<bar>\<rfloor> (-1022)"

definition ulp :: "real \<Rightarrow> real" where
  "ulp x = 2 powr of_int (expo x - 52)"

definition round64 :: "real \<Rightarrow> real" where
  "round64 x = of_int (rne (x / ulp x)) * ulp x"

definition max_float :: real where
  "max_float = (2 ^ 53 - 1) * 2 ^ 971"

definition to_float :: "real \<Rightarrow> real option" where
  "to_float x = (if \<bar>round64 x\<bar> \<le> max_float then Some (round64 x) else None)"

text \<open>
  \<open>x + y\<close> and \<open>x * y\<close> on finite floats, and the conversion of an \<open>int\<close> operand to
  a float (Python raises OverflowError when the \<open>int\<close> is too large). A float literal
  such as \<open>0.8\<close> is \<open>round64 (8/10)\<close>. \<open>is_float x\<close>: the real \<open>x\<close> is a finite float.
\<close>

definition fadd :: "real \<Rightarrow> real \<Rightarrow> real option" where
  "fadd x y = to_float (x + y)"

definition fmul :: "real \<Rightarrow> real \<Rightarrow> real option" where
  "fmul x y = to_float (x * y)"

definition float_of_nat :: "nat \<Rightarrow> real option" where
  "float_of_nat n = to_float (real n)"

definition is_float :: "real \<Rightarrow> bool" where
  "is_float x = (round64 x = x \<and> \<bar>x\<bar> \<le> max_float)"

section \<open>Dataset splitter: \<open>data_split\<close> (engine/utils.py)\<close>

text \<open>
  \<open>int(x)\<close> on a float truncates towards zero. A slice bound that is negative counts
  from the end, and every bound is clamped to the array: \<open>a[lo:hi]\<close> never raises.
\<close>

definition py_int :: "real \<Rightarrow> int" where
  "py_int x = (if 0 \<le> x then \<lfloor>x\<rfloor> else \<lceil>x\<rceil>)"

definition slice_bound :: "nat \<Rightarrow> int \<Rightarrow> nat" where
  "slice_bound n i = (if i < 0 then nat (max 0 (int n + i)) else min n (nat i))"

definition py_slice :: "int option \<Rightarrow> int option \<Rightarrow> 'a list \<Rightarrow> 'a list" where
  "py_slice lo hi xs =
     (let n = length xs;
          a = (case lo of None \<Rightarrow> 0 | Some i \<Rightarrow> slice_bound n i);
          b = (case hi of None \<Rightarrow> n | Some i \<Rightarrow> slice_bound n i)
      in take (b - a) (drop a xs))"

text \<open>
  The left side of the assertion, \<open>train_ratio + validation_ratio + test_ratio\<close>: two
  float additions, from the left. \<open>None\<close> stands for a sum that is not finite (an
  infinity, or NaN from there on), which is never equal to 1.
\<close>

definition ratio_sum :: "real \<Rightarrow> real \<Rightarrow> real \<Rightarrow> real option" where
  "ratio_sum train_ratio validation_ratio test_ratio =
     (case fadd train_ratio validation_ratio of
        None \<Rightarrow> None
      | Some tv \<Rightarrow> fadd tv test_ratio)"

text \<open>
  \<^verbatim>\<open>
  assert train_ratio + validation_ratio + test_ratio == 1
  indices = np.arange(E.shape[0])
  train_index = int(len(indices) * train_ratio)
  validation_index = int(len(indices) * (train_ratio + validation_ratio))
  train = E[:train_index,:,:,:]
  validation = E[train_index:validation_index,:,:,:]
  test = E[validation_index:,:,:,:]
  train_n2 = n2_labels[:train_index]            (and so on for isat, alpha)
  return (train, train_n2, train_isat, train_alpha), (validation, ...), (test, ...)
  \<close>
  The dataset is the list of its samples along the leading axis; a sample (a block
  channels x height x width) is never inspected, so its type is a parameter. The three
  ratios are finite floats. \<open>int\<close> of an infinite product raises OverflowError, as does
  the conversion of a length too large for a float. (The sum recomputed for
  \<open>validation_index\<close> is the one the assertion has found finite.)
\<close>

type_synonym ('s, 'l) part = "'s list \<times> 'l list \<times> 'l list \<times> 'l list"

definition data_split ::
  "'s list \<Rightarrow> 'l list \<Rightarrow> 'l list \<Rightarrow> 'l list \<Rightarrow> real \<Rightarrow> real \<Rightarrow> real
     \<Rightarrow> error + (('s, 'l) part \<times> ('s, 'l) part \<times> ('s, 'l) part)" where
  "data_split E n2_labels isat_labels alpha_labels train_ratio validation_ratio test_ratio =
     (if ratio_sum train_ratio validation_ratio test_ratio \<noteq> Some 1 then Inl AssertionError
      else
        (case float_of_nat (length E) of None \<Rightarrow> Inl OverflowError | Some n \<Rightarrow>
        (case fmul n train_ratio of None \<Rightarrow> Inl OverflowError | Some p \<Rightarrow>
        (case fadd train_ratio validation_ratio of None \<Rightarrow> Inl OverflowError | Some tv \<Rightarrow>
        (case fmul n tv of None \<Rightarrow> Inl OverflowError | Some q \<Rightarrow>
           (let train_index = py_int p;
                validation_index = py_int q
            in Inr ((py_slice None (Some train_index) E,
                     py_slice None (Some train_index) n2_labels,
                     py_slice None (Some train_index) isat_labels,
                     py_slice None (Some train_index) alpha_labels),
                    (py_slice (Some train_index) (Some validation_index) E,
                     py_slice (Some train_index) (Some validation_index) n2_labels,
                     py_slice (Some train_index) (Some validation_index) isat_labels,
                     py_slice (Some train_index) (Some validation_index) alpha_labels),
                    (py_slice (Some validation_index) None E,
                     py_slice (Some validation_index) None n2_labels,
                     py_slice (Some validation_index) None isat_labels,
                     py_slice (Some validation_index) None alpha_labels))))))))"

section \<open>Augmentation stage: \<open>data_augmentation\<close> (engine/augment.py)\<close>

text \<open>
  \<open>a[indices]\<close> with an array of non-negative indices (numpy's integer-array indexing
  on the leading axis): IndexError as soon as one index is out of range.
\<close>

definition fancy_index :: "'a list \<Rightarrow> nat list \<Rightarrow> error + 'a list" where
  "fancy_index a indices =
     (if list_all (\<lambda>i. i < length a) indices then Inr (map (nth a) indices)
      else Inl IndexError)"

text \<open>\<open>np.repeat(a, k, axis=0)\<close>: every entry \<open>k\<close> times, contiguously.\<close>

definition np_repeat :: "'a list \<Rightarrow> nat \<Rightarrow> 'a list" where
  "np_repeat a k = concat (map (replicate k) a)"

definition augmentation :: nat where
  "augmentation = 16"

text \<open>
  \<^verbatim>\<open>
  number_of_n2, n2_labels, number_of_isat, isat_labels, number_of_alpha, alpha_labels = labels
  augmentation = 16
  indices = np.arange(len(n2_labels))
  np.random.shuffle(indices)
  n2_labels = n2_labels[indices]
  isat_labels = isat_labels[indices]
  alpha_labels = alpha_labels[indices]
  E = E[indices, :, :, :]
  n2_labels = np.repeat(n2_labels, augmentation)       (and so on)
  augmented_data = np.repeat(E, augmentation, axis=0)
  labels = (number_of_n2, n2_labels, number_of_isat, isat_labels, number_of_alpha, alpha_labels)
  return augmented_data, labels
  \<close>
  \<open>np.random.shuffle\<close> draws from numpy's global generator, which is not part of the
  repository: the function \<open>shuffle\<close> stands for the outcome of that one call on the
  index array. What numpy documents of it, that it reorders its argument in place, is
  the hypothesis \<open>mset (shuffle xs) = mset xs\<close> of the theorems below.
\<close>

type_synonym ('c, 'l) labels = "'c \<times> 'l list \<times> 'c \<times> 'l list \<times> 'c \<times> 'l list"

definition data_augmentation ::
  "(nat list \<Rightarrow> nat list) \<Rightarrow> 's list \<Rightarrow> ('c, 'l) labels \<Rightarrow> error + ('s list \<times> ('c, 'l) labels)" where
  "data_augmentation shuffle E labels =
     (case labels of
        (number_of_n2, n2_labels, number_of_isat, isat_labels, number_of_alpha, alpha_labels) \<Rightarrow>
          (let indices = shuffle [0..<length n2_labels] in
           case fancy_index n2_labels indices of Inl e \<Rightarrow> Inl e | Inr n2_1 \<Rightarrow>
           (case fancy_index isat_labels indices of Inl e \<Rightarrow> Inl e | Inr isat_1 \<Rightarrow>
           (case fancy_index alpha_labels indices of Inl e \<Rightarrow> Inl e | Inr alpha_1 \<Rightarrow>
           (case fancy_index E indices of Inl e \<Rightarrow> Inl e | Inr E1 \<Rightarrow>
              Inr (np_repeat E1 augmentation,
                   (number_of_n2, np_repeat n2_1 augmentation,
                    number_of_isat, np_repeat isat_1 augmentation,
                    number_of_alpha, np_repeat alpha_1 augmentation)))))))"

section \<open>Normalisation: \<open>normalize_data\<close> (engine/utils.py)\<close>

text \<open>
  \<^verbatim>\<open>
  data -= np.min(data, axis=(-2, -1), keepdims=True)
  data /= np.max(data, axis=(-2, -1), keepdims=True)
  return data
  \<close>
  The division is where numpy leaves the finite numbers without raising: a slice whose
  entries are all equal is \<open>0\<close> everywhere after the subtraction, its maximum is \<open>0\<close>,
  and \<open>0/0\<close> is NaN. So the entries of these arrays are finite reals or NaN. NaN
  propagates through arithmetic and through \<open>np.min\<close> and \<open>np.max\<close>. (A nonzero
  finite value divided by zero would be an infinity; dividing by the maximum of
  non-negative finite entries never does that, and the model has no infinities.)
\<close>

datatype fl = Fin real | NaN

fun fl_sub :: "fl \<Rightarrow> fl \<Rightarrow> fl" where
  "fl_sub (Fin a) (Fin b) = Fin (a - b)"
| "fl_sub _ _ = NaN"

fun fl_div :: "fl \<Rightarrow> fl \<Rightarrow> fl" where
  "fl_div (Fin a) (Fin b) = (if b = 0 then NaN else Fin (a / b))"
| "fl_div _ _ = NaN"

fun fl_mul :: "fl \<Rightarrow> fl \<Rightarrow> fl" where
  "fl_mul (Fin a) (Fin b) = Fin (a * b)"
| "fl_mul _ _ = NaN"

fun fl_min :: "fl \<Rightarrow> fl \<Rightarrow> fl" where
  "fl_min (Fin a) (Fin b) = Fin (min a b)"
| "fl_min _ _ = NaN"

fun fl_max :: "fl \<Rightarrow> fl \<Rightarrow> fl" where
  "fl_max (Fin a) (Fin b) = Fin (max a b)"
| "fl_max _ _ = NaN"

text \<open>
  \<open>np.min\<close> and \<open>np.max\<close> over all entries; on an array with no entry they raise
  ValueError (a reduction with no identity).
\<close>

definition amin :: "fl list \<Rightarrow> error + fl" where
  "amin xs = (case xs of [] \<Rightarrow> Inl ValueError | x # r \<Rightarrow> Inr (fold fl_min r x))"

definition amax :: "fl list \<Rightarrow> error + fl" where
  "amax xs = (case xs of [] \<Rightarrow> Inl ValueError | x # r \<Rightarrow> Inr (fold fl_max r x))"

text \<open>The two statements on one slice (a 2D array is its own only slice).\<close>

definition normalize_slice :: "fl list list \<Rightarrow> error + fl list list" where
  "normalize_slice d =
     (case amin (concat d) of
        Inl e \<Rightarrow> Inl e
      | Inr m \<Rightarrow>
          (let d1 = map (map (\<lambda>x. fl_sub x m)) d in
           case amax (concat d1) of
             Inl e \<Rightarrow> Inl e
           | Inr M \<Rightarrow> Inr (map (map (\<lambda>x. fl_div x M)) d1)))"




section \<open>Noise synthesizers: \<open>experiment_noise\<close>, \<open>line_noise\<close> (engine/utils.py)\<close>

text \<open>
  \<^verbatim>\<open>
  poisson_noise = np.random.poisson(lam=poisson_noise_lam, size=(beam.shape))*poisson_noise_lam*0.75
  normal_noise = np.random.normal(0, normal_noise_sigma, (beam.shape))
  total_noise = normal_noise + poisson_noise
  noisy_beam = np.real(beam) + total_noise + 1j * np.imag(beam)
  noisy_beam = noisy_beam.astype(np.complex64)
  return noisy_beam
  \<close>
  The two samplers draw one value per pixel, of the shape of \<open>beam\<close>: \<open>P i j\<close> and
  \<open>G i j\<close> are the values drawn for pixel \<open>(i, j)\<close>, natural numbers for the Poisson
  draw. numpy rejects a negative rate and a negative standard deviation with ValueError.
  The cast to complex64 fixes the precision of the result and is the identity on the
  exact numbers of the model.
\<close>

definition experiment_noise ::
  "(nat \<Rightarrow> nat \<Rightarrow> nat) \<Rightarrow> (nat \<Rightarrow> nat \<Rightarrow> real) \<Rightarrow> complex list list \<Rightarrow> real \<Rightarrow> real
     \<Rightarrow> error + complex list list" where
  "experiment_noise P G beam poisson_noise_lam normal_noise_sigma =
     (if poisson_noise_lam < 0 then Inl ValueError
      else if normal_noise_sigma < 0 then Inl ValueError
      else
        let poisson_noise = (\<lambda>i j. real (P i j) * poisson_noise_lam * 0.75);
            normal_noise = G;
            total_noise = (\<lambda>i j. normal_noise i j + poisson_noise i j)
        in Inr (map (\<lambda>i. map (\<lambda>j.
                  of_real (Re (beam ! i ! j)) + of_real (total_noise i j)
                    + \<i> * of_real (Im (beam ! i ! j)))
                 [0..<length (beam ! i)]) [0..<length beam]))"

text \<open>
  \<^verbatim>\<open>
  height, width = image.shape
  angle_rad = np.radians(angle)
  X, Y = np.meshgrid(np.arange(width), np.arange(height))
  X_rotated = X * np.cos(angle_rad) + Y * np.sin(angle_rad)
  diagonal_length = np.sqrt(width**2 + height**2)
  wave_frequency = (num_lines * 2 * np.pi) / diagonal_length
  lines_pattern =  amplitude*np.sin(X_rotated * wave_frequency)
  noisy_image = image.copy() + lines_pattern
  return noisy_image
  \<close>
  \<open>X\<close> and \<open>Y\<close> are the column and row index of a pixel; the argument \<open>image\<close> is
  written \<open>img\<close>.
\<close>

definition radians :: "real \<Rightarrow> real" where
  "radians angle = angle * pi / 180"

definition diagonal_length :: "nat \<Rightarrow> nat \<Rightarrow> real" where
  "diagonal_length w h = sqrt (real (w ^ 2 + h ^ 2))"

definition wave_frequency :: "int \<Rightarrow> nat \<Rightarrow> nat \<Rightarrow> real" where
  "wave_frequency num_lines w h = (of_int num_lines * 2 * pi) / diagonal_length w h"

text \<open>The pattern as a function of the rotated coordinate.\<close>

definition lines_pattern :: "real \<Rightarrow> real \<Rightarrow> real \<Rightarrow> real" where
  "lines_pattern amplitude wave_freq x_rotated = amplitude * sin (x_rotated * wave_freq)"

definition line_noise :: "real list list \<Rightarrow> int \<Rightarrow> real \<Rightarrow> real \<Rightarrow> real list list" where
  "line_noise img num_lines amplitude angle =
     (let h = length img;
          w = width img;
          angle_rad = radians angle
      in map (\<lambda>Y. map (\<lambda>X.
               img ! Y ! X
                 + lines_pattern amplitude (wave_frequency num_lines w h)
                     (real X * cos angle_rad + real Y * sin angle_rad))
              [0..<w]) [0..<h])"

section \<open>Experimental-inference driver: \<open>get_parameters\<close> (engine/use.py)\<close>

text \<open>
  What the driver calls outside the repository's own arithmetic is a parameter:
  \<^item> \<open>zoom\<close>: \<open>scipy.ndimage.zoom\<close> of a real 2D array by a pair of factors;
  \<^item> \<open>hog\<close>: the visualisation image that \<open>skimage.feature.hog\<close> returns for a
    one-channel image (its feature vector is dropped by the driver);
  \<^item> \<open>cnn\<close>: the forward pass of the network on the input tensor, giving the
    entries \<open>[0, 0]\<close> of its three outputs;
  \<^item> \<open>compare\<close>: the regeneration and plotting behind \<open>plot_generate_compare\<close>.
  Each of them can raise. Choosing the device, loading the weights and loading the field
  from \<open>exp_path\<close> come first and are not modelled: the model starts from the loaded
  field. The casts to float16 and float32 change precision only.
\<close>

type_synonym image = "fl list list"

type_synonym tensor = "fl list list list list"

record env =
  zoom :: "real list list \<Rightarrow> real \<times> real \<Rightarrow> error + real list list"
  hog :: "image \<Rightarrow> error + image"
  cnn :: "tensor \<Rightarrow> error + (fl \<times> fl \<times> fl)"
  compare :: "fl \<times> fl \<times> fl \<Rightarrow> error + unit"

type_synonym nlse_settings =
  "real list \<times> real \<times> real list \<times> real list \<times> real \<times> real \<times> real \<times> real"

text \<open>\<open>a.min()\<close> and \<open>a.max()\<close> of a 1D grid of finite numbers.\<close>

definition grid_min :: "real list \<Rightarrow> error + real" where
  "grid_min a = (case a of [] \<Rightarrow> Inl ValueError | _ # _ \<Rightarrow> Inr (Min (set a)))"

definition grid_max :: "real list \<Rightarrow> error + real" where
  "grid_max a = (case a of [] \<Rightarrow> Inl ValueError | _ # _ \<Rightarrow> Inr (Max (set a)))"

text \<open>
  \<open>(resolution_training/field.shape[-2], resolution_training/field.shape[-1])\<close>:
  Python's division raises ZeroDivisionError on a zero extent.
\<close>

definition zoom_factors :: "int \<Rightarrow> 'a list list \<Rightarrow> error + (real \<times> real)" where
  "zoom_factors resolution_training field =
     (if length field = 0 \<or> width field = 0 then Inl ZeroDivisionError
      else Inr (of_int resolution_training / real (length field),
                of_int resolution_training / real (width field)))"

definition np_zeros4 :: "nat \<Rightarrow> nat \<Rightarrow> nat \<Rightarrow> nat \<Rightarrow> tensor" where
  "np_zeros4 a b c d = replicate a (replicate b (replicate c (replicate d (Fin 0))))"

text \<open>
  Assigning a 2D array to a 2D target of \<open>H\<close> rows and \<open>W\<close> columns follows numpy's
  broadcasting: each extent of the value must be the target's or 1 (an extent of 1 is
  repeated), otherwise ValueError (could not broadcast).
\<close>

definition broadcast_to :: "nat \<Rightarrow> nat \<Rightarrow> 'a list list \<Rightarrow> error + 'a list list" where
  "broadcast_to H W a =
     (let h = length a; w = width a in
      if (h = H \<or> h = 1) \<and> (w = W \<or> w = 1)
      then Inr (map (\<lambda>i. map (\<lambda>j. a ! (if h = 1 then 0 else i) ! (if w = 1 then 0 else j))
                     [0..<W]) [0..<H])
      else Inl ValueError)"

text \<open>\<open>E[0, c, :, :] = a\<close>.\<close>

definition assign_channel :: "tensor \<Rightarrow> nat \<Rightarrow> image \<Rightarrow> error + tensor" where
  "assign_channel E c a =
     (if 0 < length E \<and> c < length (E ! 0)
      then (case broadcast_to (length (E ! 0 ! c)) (width (E ! 0 ! c)) a of
              Inl e \<Rightarrow> Inl e
            | Inr b \<Rightarrow> Inr (E[0 := (E ! 0)[c := b]]))
      else Inl IndexError)"

text \<open>Sequencing: an exception ends the call, a value goes on to the next statement.\<close>

definition andthen :: "error + 'a \<Rightarrow> ('a \<Rightarrow> error + 'b) \<Rightarrow> error + 'b" where
  "andthen r f = (case r of Inl e \<Rightarrow> Inl e | Inr x \<Rightarrow> f x)"

text \<open>
  \<^verbatim>\<open>
  n2, in_power, alpha, isat, waist, nl_length, delta_z, length = nlse_settings
  _, _, _, resolution_training = cameras
  min_n2 = n2.min()
  max_isat = isat.max()
  max_alpha = alpha.max()
  ...
  density_experiment = normalize_data(zoom(np.abs(field),
      (resolution_training/field.shape[-2], resolution_training/field.shape[-1]))).astype(np.float16)
  phase_experiment = np.angle(field)
  phase_experiment = normalize_data(zoom(phase_experiment,
      (resolution_training/field.shape[-2], resolution_training/field.shape[-1]))).astype(np.float16)
  fd, hog_phase_experiment = hog(phase_experiment[np.newaxis,:,:], ...)
  fd, hog_density_experiment = hog(density_experiment[np.newaxis,:,:], ...)
  E = np.zeros((1, 4, 256, 256), dtype=np.float16)
  E[0, 0, :, :] = density_experiment
  E[0, 1, :, :] = hog_density_experiment.astype(np.float16)
  E[0, 2, :, :] = phase_experiment
  E[0, 3, :, :] = hog_phase_experiment.astype(np.float16)
  with torch.no_grad():
      images = torch.from_numpy(E).float().to(device)
      outputs_n2, outputs_isat, outputs_alpha = cnn(images)
  computed_n2 = outputs_n2[0,0].cpu().numpy()*min_n2
  computed_isat = outputs_isat[0,0].cpu().numpy()*max_isat
  computed_alpha = outputs_alpha[0,0].cpu().numpy()*max_alpha
  ...
  if plot_generate_compare:
      ...
  return computed_n2, computed_isat, computed_alpha
  \<close>
\<close>

definition get_parameters ::
  "env \<Rightarrow> complex list list \<Rightarrow> nlse_settings \<Rightarrow> 'a \<times> 'b \<times> 'c \<times> int \<Rightarrow> bool
     \<Rightarrow> error + (fl \<times> fl \<times> fl)" where
  "get_parameters ext field nlse_settings cameras plot_generate_compare =
     (case nlse_settings of (n2, in_power, alpha, isat, waist, nl_length, delta_z, length') \<Rightarrow>
     (case cameras of (_, _, _, resolution_training) \<Rightarrow>
      andthen (grid_min n2) (\<lambda>min_n2.
      andthen (grid_max isat) (\<lambda>max_isat.
      andthen (grid_max alpha) (\<lambda>max_alpha.
      andthen (zoom_factors resolution_training field) (\<lambda>factors.
      andthen (zoom ext (map (map cmod) field) factors) (\<lambda>zoomed_density.
      andthen (normalize_slice (map (map Fin) zoomed_density)) (\<lambda>density_experiment.
      andthen (zoom ext (map (map Arg) field) factors) (\<lambda>zoomed_phase.
      andthen (normalize_slice (map (map Fin) zoomed_phase)) (\<lambda>phase_experiment.
      andthen (hog ext phase_experiment) (\<lambda>hog_phase_experiment.
      andthen (hog ext density_experiment) (\<lambda>hog_density_experiment.
      andthen (assign_channel (np_zeros4 1 4 256 256) 0 density_experiment) (\<lambda>E0.
      andthen (assign_channel E0 1 hog_density_experiment) (\<lambda>E1.
      andthen (assign_channel E1 2 phase_experiment) (\<lambda>E2.
      andthen (assign_channel E2 3 hog_phase_experiment) (\<lambda>E3.
      andthen (cnn ext E3) (\<lambda>outputs.
        (let outputs_n2 = fst outputs;
             outputs_isat = fst (snd outputs);
             outputs_alpha = snd (snd outputs);
             computed_n2 = fl_mul outputs_n2 (Fin min_n2);
             computed_isat = fl_mul outputs_isat (Fin max_isat);
             computed_alpha = fl_mul outputs_alpha (Fin max_alpha)
         in if plot_generate_compare
            then andthen (compare ext (computed_n2, computed_alpha, computed_isat))
                   (\<lambda>_. Inr (computed_n2, computed_isat, computed_alpha))
            else Inr (computed_n2, computed_isat, computed_alpha)))))))))))))))))))"

text \<open>
  Shapes. \<open>has_shape a h w\<close>: the 2D array \<open>a\<close> has \<open>h\<close> rows of \<open>w\<close> entries.
  \<open>input_shape E\<close>: the tensor \<open>E\<close> has the shape \<open>(1, 4, 256, 256)\<close>.
\<close>

definition has_shape :: "'a list list \<Rightarrow> nat \<Rightarrow> nat \<Rightarrow> bool" where
  "has_shape a h w = (length a = h \<and> list_all (\<lambda>r. length r = w) a)"

definition input_shape :: "tensor \<Rightarrow> bool" where
  "input_shape E = (length E = 1 \<and> length (E ! 0) = 4 \<and> list_all (\<lambda>ch. has_shape ch 256 256) (E ! 0))"

text \<open>
  What the theorems assume of the two image stages, from their documentation. \<open>zoom\<close>
  returns an array whose extents are the input's extents times the factors, rounded
  (\<open>int(round(extent * factor))\<close>; the products met here are whole numbers). \<open>hog\<close>
  is called with cells of 6x6 pixels and blocks of 2x2 cells: it raises ValueError on an
  image that holds no whole cell (the current library asks for a whole block, 12 rows
  and 12 columns), and the image it returns has the shape of its input.
\<close>

definition zoom_contract :: "env \<Rightarrow> bool" where
  "zoom_contract ext =
     (\<forall>a f out. zoom ext a f = Inr out \<longrightarrow>
        has_shape out (nat (round (real (length a) * fst f))) (nat (round (real (width a) * snd f))))"

definition hog_contract :: "env \<Rightarrow> bool" where
  "hog_contract ext =
     (\<forall>a out. hog ext a = Inr out \<longrightarrow>
        6 \<le> length a \<and> 6 \<le> width a \<and> (\<forall>h w. has_shape a h w \<longrightarrow> has_shape out h w))"

text \<open>
  Stand-ins for the external stages, for running the driver on concrete inputs: a
  \<open>zoom\<close> that returns a zero image of the extents scipy computes, a \<open>hog\<close> that
  raises on an image under 12x12 and returns its input otherwise, a network with
  constant outputs, and a comparison that does nothing.
\<close>

definition stub_env :: env where
  "stub_env =
     \<lparr> zoom = (\<lambda>a f. Inr (replicate (nat (round (real (length a) * fst f)))
                           (replicate (nat (round (real (width a) * snd f))) 0))),
       hog = (\<lambda>a. if length a < 12 \<or> width a < 12 then Inl ValueError else Inr a),
       cnn = (\<lambda>E. Inr (Fin (1/2), Fin (1/2), Fin 1)),
       compare = (\<lambda>_. Inr ()) \<rparr>"

section \<open>Facts about \<open>general_extrema\<close>\<close>

text \<open>
  C9, as stated: when the centre entry equals the corner entry, nothing is subtracted
  and the result is \<open>|E|\<close>. The code's second branch tests the centre against \<open>0\<close>,
  not against the corner, so a tie at a negative value still subtracts the minimum. On
  the 1x1 array \<open>[[-1]]\<close> the centre is the corner, and the result is \<open>[[0]]\<close>, not
  \<open>[[1]]\<close>.
\<close>

theorem general_extrema_tie_counterexample:
  "get2 [[-1 :: real]] (length [[-1 :: real]] div 2) (width [[-1 :: real]] div 2) = get2 [[-1]] 0 0
   \<and> general_extrema [[-1]] = Inr [[0]]
   \<and> map (map abs) [[-1 :: real]] = [[1]]"
  by (simp add: general_extrema_def get2_def width_def)

text \<open>
  C9, amended: when the centre entry equals the corner entry \<open>c\<close>, the result is
  \<open>|E|\<close> if \<open>c\<close> is not negative, and \<open>|E - min E|\<close> if \<open>c\<close> is negative.
\<close>

theorem general_extrema_tie:
  assumes "get2 E (length E div 2) (width E div 2) = Inr c" and "get2 E 0 0 = Inr c"
  shows "general_extrema E =
           Inr (map (map abs) (if c < 0 then map (map (\<lambda>x. x - Min (set (concat E)))) E else E))"
  using assms by (simp add: general_extrema_def)

theorem general_extrema_tie_witness:
  "get2 [[2, 5], [-7, 2 :: real]] (length [[2, 5], [-7, 2 :: real]] div 2)
       (width [[2, 5], [-7, 2 :: real]] div 2) = Inr 2
   \<and> get2 [[2, 5], [-7, 2 :: real]] 0 0 = Inr 2
   \<and> general_extrema [[2, 5], [-7, 2]] = Inr [[2, 5], [7, 2]]
   \<and> general_extrema [[-2, 5], [-7, -2]] = Inr [[5, 12], [0, 5]]"
  using general_extrema_tie [of "[[2, 5], [-7, 2]]" 2]
    general_extrema_tie [of "[[-2, 5], [-7, -2]]" "-2"]
  by (simp add: get2_def width_def)

section \<open>Facts about Python floats\<close>

lemma rne_of_int: "rne (of_int k) = k"
  by (simp add: rne_def)

lemma rne_cases: "rne y = \<lfloor>y\<rfloor> \<or> rne y = \<lfloor>y\<rfloor> + 1"
  by (simp add: rne_def Let_def)

lemma rne_floor_le: "\<lfloor>y\<rfloor> \<le> rne y"
  using rne_cases [of y] by auto

lemma rne_mono:
  assumes "x \<le> y"
  shows "rne x \<le> rne y"
proof (cases "\<lfloor>x\<rfloor> = \<lfloor>y\<rfloor>")
  case True
  have d: "x - of_int \<lfloor>x\<rfloor> \<le> y - of_int \<lfloor>y\<rfloor>" using assms True by simp
  show ?thesis
    using d True unfolding rne_def Let_def by (auto split: if_splits)
next
  case False
  have "\<lfloor>x\<rfloor> \<le> \<lfloor>y\<rfloor>" using assms by (rule floor_mono)
  with False have lt: "\<lfloor>x\<rfloor> < \<lfloor>y\<rfloor>" by simp
  have "rne x \<le> \<lfloor>x\<rfloor> + 1" using rne_cases [of x] by auto
  also have "\<dots> \<le> \<lfloor>y\<rfloor>" using lt by simp
  also have "\<dots> \<le> rne y" by (rule rne_floor_le)
  finally show ?thesis .
qed

lemma rne_lower: "of_int a \<le> y \<Longrightarrow> a \<le> rne y"
  using rne_mono [of "of_int a" y] by (simp add: rne_of_int)

lemma rne_upper: "y \<le> of_int b \<Longrightarrow> rne y \<le> b"
  using rne_mono [of y "of_int b"] by (simp add: rne_of_int)

lemma ulp_pos: "0 < ulp x"
  by (simp add: ulp_def)

lemma expo_ge: "-1022 \<le> expo x"
  by (simp add: expo_def)

lemma round64_zero: "round64 0 = 0"
  by (simp add: round64_def rne_def)

lemma round64_nonneg: "0 \<le> x \<Longrightarrow> 0 \<le> round64 x"
proof -
  assume "0 \<le> x"
  then have "of_int 0 \<le> x / ulp x" using ulp_pos [of x] by simp
  then have "0 \<le> rne (x / ulp x)" by (rule rne_lower)
  then show ?thesis using ulp_pos [of x] by (simp add: round64_def)
qed

text \<open>The binade of a positive number.\<close>

lemma floor_log_bounds:
  assumes "0 < x"
  shows "2 powr of_int \<lfloor>log 2 x\<rfloor> \<le> x" and "x < 2 powr (of_int \<lfloor>log 2 x\<rfloor> + 1)"
  using floor_log_eq_powr_iff [of x 2 "\<lfloor>log 2 x\<rfloor>"] assms by simp_all

lemma expo_mono:
  assumes "0 < x" "x \<le> y"
  shows "expo x \<le> expo y"
proof -
  have "log 2 x \<le> log 2 y" using assms by simp
  then have "\<lfloor>log 2 x\<rfloor> \<le> \<lfloor>log 2 y\<rfloor>" by (rule floor_mono)
  then show ?thesis using assms by (simp add: expo_def)
qed

lemma below_next_binade:
  assumes "0 < x"
  shows "x < 2 powr (of_int (expo x) + 1)"
proof -
  have "x < 2 powr (of_int \<lfloor>log 2 x\<rfloor> + 1)" by (rule floor_log_bounds(2) [OF assms])
  also have "\<dots> \<le> 2 powr (of_int (expo x) + 1)"
    using assms by (simp add: expo_def)
  finally show ?thesis .
qed

lemma pow53: "(2 :: real) powr (of_int e + 1) = 2 ^ 53 * 2 powr of_int (e - 52)"
proof -
  have "of_int e + 1 = (53 :: real) + of_int (e - 52)" by simp
  then have "(2 :: real) powr (of_int e + 1) = 2 powr (53 :: real) * 2 powr of_int (e - 52)"
    by (simp only: powr_add)
  then show ?thesis by simp
qed

lemma pow52: "(2 :: real) powr of_int e = 2 ^ 52 * 2 powr of_int (e - 52)"
proof -
  have "of_int e = (52 :: real) + of_int (e - 52)" by simp
  then have "(2 :: real) powr of_int e = 2 powr (52 :: real) * 2 powr of_int (e - 52)"
    by (simp only: powr_add)
  then show ?thesis by simp
qed

lemma round64_upper:
  assumes "0 < x"
  shows "round64 x \<le> 2 powr (of_int (expo x) + 1)"
proof -
  have "x < 2 ^ 53 * ulp x"
    using below_next_binade [OF assms] by (simp add: pow53 ulp_def)
  then have "x / ulp x \<le> of_int (2 ^ 53)"
    using ulp_pos [of x] by (simp add: pos_divide_le_eq)
  then have "rne (x / ulp x) \<le> 2 ^ 53" by (rule rne_upper)
  then have "of_int (rne (x / ulp x)) \<le> (2 ^ 53 :: real)"
    by (metis of_int_le_iff of_int_numeral of_int_power)
  then have "round64 x \<le> 2 ^ 53 * ulp x"
    using ulp_pos [of x] by (simp add: round64_def)
  then show ?thesis by (simp add: pow53 ulp_def)
qed

lemma round64_lower:
  assumes "0 < x" and "-1022 \<le> \<lfloor>log 2 x\<rfloor>"
  shows "2 powr of_int (expo x) \<le> round64 x"
proof -
  have e: "expo x = \<lfloor>log 2 x\<rfloor>" using assms by (simp add: expo_def)
  have "2 powr of_int (expo x) \<le> x"
    unfolding e by (rule floor_log_bounds(1) [OF assms(1)])
  then have "2 ^ 52 * ulp x \<le> x" by (simp add: pow52 [of "expo x"] ulp_def)
  then have "of_int (2 ^ 52) \<le> x / ulp x"
    using ulp_pos [of x] by (simp add: pos_le_divide_eq)
  then have "2 ^ 52 \<le> rne (x / ulp x)" by (rule rne_lower)
  then have "(2 ^ 52 :: real) \<le> of_int (rne (x / ulp x))"
    by (metis of_int_le_iff of_int_numeral of_int_power)
  then have "2 ^ 52 * ulp x \<le> round64 x"
    using ulp_pos [of x] by (simp add: round64_def)
  then show ?thesis by (simp add: pow52 [of "expo x"] ulp_def)
qed

lemma round64_mono:
  assumes "0 \<le> x" "x \<le> y"
  shows "round64 x \<le> round64 y"
proof (cases "x = 0")
  case True
  then show ?thesis using round64_nonneg [of y] assms by (simp add: round64_zero)
next
  case False
  then have x: "0 < x" and y: "0 < y" using assms by simp_all
  have le: "expo x \<le> expo y" by (rule expo_mono [OF x assms(2)])
  show ?thesis
  proof (cases "expo x = expo y")
    case True
    then have u: "ulp x = ulp y" by (simp add: ulp_def)
    have "x / ulp y \<le> y / ulp y" using assms(2) ulp_pos [of y] by (simp add: divide_right_mono)
    then have "rne (x / ulp y) \<le> rne (y / ulp y)" by (rule rne_mono)
    then show ?thesis using ulp_pos [of y] by (simp add: round64_def u)
  next
    case False
    with le have lt: "expo x < expo y" by simp
    have "-1022 \<le> expo x" by (rule expo_ge)
    with lt have "-1022 < expo y" by simp
    then have n: "-1022 \<le> \<lfloor>log 2 y\<rfloor>" unfolding expo_def using y by linarith
    have "round64 x \<le> 2 powr (of_int (expo x) + 1)" by (rule round64_upper [OF x])
    also have "\<dots> \<le> 2 powr of_int (expo y)" using lt by simp
    also have "\<dots> \<le> round64 y" by (rule round64_lower [OF y n])
    finally show ?thesis .
  qed
qed

lemma pow_int_nonneg: "0 \<le> d \<Longrightarrow> (2 :: real) powr of_int d = of_int (2 ^ nat d)"
proof -
  assume d: "0 \<le> d"
  have "(2 :: real) powr of_int d = 2 powr real (nat d)" using d by simp
  also have "\<dots> = 2 ^ nat d" by (simp add: powr_realpow)
  finally show ?thesis by simp
qed

lemma mantissa_le:
  assumes "0 \<le> x"
  shows "rne (x / ulp x) \<le> 2 ^ 53"
proof (cases "x = 0")
  case True
  then show ?thesis by (simp add: rne_def)
next
  case False
  then have x: "0 < x" using assms by simp
  have "x < 2 ^ 53 * ulp x"
    using below_next_binade [OF x] by (simp add: pow53 ulp_def)
  then have "x / ulp x \<le> of_int (2 ^ 53)"
    using ulp_pos [of x] by (simp add: pos_divide_le_eq)
  then show ?thesis by (rule rne_upper)
qed

lemma mantissa_nonneg:
  assumes "0 \<le> x"
  shows "0 \<le> rne (x / ulp x)"
proof -
  have "of_int 0 \<le> x / ulp x" using assms ulp_pos [of x] by simp
  then show ?thesis by (rule rne_lower)
qed

lemma round64_representable:
  assumes k: "-1074 \<le> k" and m: "0 \<le> m" "m \<le> 2 ^ 53"
  shows "round64 (of_int m * 2 powr of_int k) = of_int m * 2 powr of_int k"
proof (cases "m = 0")
  case True
  then show ?thesis by (simp add: round64_zero)
next
  case False
  define r :: real where "r = of_int m * 2 powr of_int k"
  have mpos: "0 < m" using False m by simp
  then have r: "0 < r" by (simp add: r_def)
  define L where "L = \<lfloor>log 2 r\<rfloor>"
  have E: "expo r = max L (-1022)" using r by (simp add: expo_def L_def)
  have lo: "2 powr of_int L \<le> r" unfolding L_def by (rule floor_log_bounds(1) [OF r])
  have q: "r / ulp r = of_int m * 2 powr of_int (k + 52 - expo r)"
  proof -
    have "r / ulp r = of_int m * (2 powr of_int k / 2 powr of_int (expo r - 52))"
      by (simp add: r_def ulp_def)
    also have "2 powr of_int k / 2 powr of_int (expo r - 52) = (2 :: real) powr (of_int k - of_int (expo r - 52))"
      by (simp only: powr_diff)
    also have "of_int k - of_int (expo r - 52) = (of_int (k + 52 - expo r) :: real)" by simp
    finally show ?thesis .
  qed
  have "\<exists>j. r / ulp r = of_int j"
  proof (cases "0 \<le> k + 52 - expo r")
    case True
    have "r / ulp r = of_int (m * 2 ^ nat (k + 52 - expo r))"
      unfolding q pow_int_nonneg [OF True] by simp
    then show ?thesis by blast
  next
    case neg: False
    then have "k + 52 < expo r" by simp
    with k E have EL: "expo r = L" and big: "k + 53 \<le> L" by (simp_all add: max_def split: if_splits)
    have "2 powr of_int L = 2 powr of_int (L - k) * (2 :: real) powr of_int k"
    proof -
      have "(of_int L :: real) = of_int (L - k) + of_int k" by simp
      then show ?thesis by (simp only: powr_add)
    qed
    with lo have "2 powr of_int (L - k) * (2 :: real) powr of_int k \<le> of_int m * 2 powr of_int k"
      by (simp add: r_def)
    then have le: "(2 :: real) powr of_int (L - k) \<le> of_int m" by simp
    have "(53 :: real) \<le> of_int (L - k)" using big by simp
    then have "(2 :: real) powr 53 \<le> 2 powr of_int (L - k)" by (rule powr_mono) simp
    with le have "(2 :: real) powr 53 \<le> of_int m" by linarith
    then have "(2 :: real) ^ 53 \<le> of_int m" by simp
    then have "(2 :: int) ^ 53 \<le> m" by (metis of_int_le_iff of_int_numeral of_int_power)
    with m(2) have m53: "m = 2 ^ 53" by simp
    have up: "(2 :: real) powr of_int (L - k) \<le> 2 powr 53" using le by (simp add: m53)
    have "L - k \<le> 53"
    proof (rule ccontr)
      assume "\<not> L - k \<le> 53"
      then have "(54 :: real) \<le> of_int (L - k)" by simp
      then have "(2 :: real) powr 54 \<le> 2 powr of_int (L - k)" by (rule powr_mono) simp
      with up have "(2 :: real) powr 54 \<le> 2 powr 53" by linarith
      then show False by simp
    qed
    with big have Lk: "L = k + 53" by simp
    have "r / ulp r = of_int m * 2 powr (-1)"
      unfolding q EL Lk by simp
    also have "\<dots> = of_int (2 ^ 52)" by (simp add: m53 powr_minus_divide)
    finally show ?thesis by blast
  qed
  then obtain j where j: "r / ulp r = of_int j" by blast
  have "round64 r = of_int j * ulp r" by (simp add: round64_def j rne_of_int)
  also have "\<dots> = r / ulp r * ulp r" by (simp only: j)
  also have "\<dots> = r" using ulp_pos [of r] by simp
  finally show ?thesis by (simp add: r_def)
qed

lemma round64_idem:
  assumes "0 \<le> x"
  shows "round64 (round64 x) = round64 x"
proof -
  have k: "-1074 \<le> expo x - 52" using expo_ge [of x] by simp
  have "round64 x = of_int (rne (x / ulp x)) * 2 powr of_int (expo x - 52)"
    by (simp add: round64_def ulp_def)
  then show ?thesis
    using round64_representable [OF k mantissa_nonneg [OF assms] mantissa_le [OF assms]] by simp
qed

lemma round64_of_nat:
  assumes "n \<le> 2 ^ 53"
  shows "round64 (real n) = real n"
proof -
  have "int n \<le> 2 ^ 53" using assms by (metis of_nat_le_iff of_nat_numeral of_nat_power)
  then have "round64 (of_int (int n) * 2 powr of_int 0) = of_int (int n) * 2 powr of_int 0"
    by (intro round64_representable) simp_all
  then show ?thesis by simp
qed

lemma round64_at:
  assumes "2 powr of_int e \<le> \<bar>x\<bar>" "\<bar>x\<bar> < 2 powr (of_int e + 1)" "-1022 \<le> e"
  shows "round64 x = of_int (rne (x / 2 powr of_int (e - 52))) * 2 powr of_int (e - 52)"
proof -
  have "0 < (2 :: real) powr of_int e" by simp
  with assms(1) have x: "0 < \<bar>x\<bar>" by linarith
  have "\<lfloor>log 2 \<bar>x\<bar>\<rfloor> = e"
    using floor_log_eq_powr_iff [of "\<bar>x\<bar>" 2 e] x assms(1,2) by simp
  then have "expo x = e" using assms(3) by (simp add: expo_def)
  then show ?thesis by (simp add: round64_def ulp_def)
qed

lemma to_float_Some: "to_float x = Some z \<Longrightarrow> z = round64 x \<and> \<bar>round64 x\<bar> \<le> max_float"
  by (simp add: to_float_def split: if_splits)

lemma to_float_small:
  assumes "0 \<le> x" "x \<le> 2 ^ 53"
  shows "to_float x = Some (round64 x)" and "round64 x \<le> 2 ^ 53"
proof -
  have "round64 x \<le> round64 (real (2 ^ 53))" using assms by (intro round64_mono) simp_all
  also have "\<dots> = 2 ^ 53" using round64_of_nat [of "2 ^ 53"] by simp
  finally show le: "round64 x \<le> 2 ^ 53" .
  have "0 \<le> round64 x" by (rule round64_nonneg [OF assms(1)])
  moreover have "(2 :: real) ^ 53 \<le> max_float" by (simp add: max_float_def)
  ultimately show "to_float x = Some (round64 x)" using le by (simp add: to_float_def)
qed

lemma to_float_of_nat: "n \<le> 2 ^ 53 \<Longrightarrow> to_float (real n) = Some (real n)"
proof -
  assume n: "n \<le> 2 ^ 53"
  have "real n \<le> 2 ^ 53" using n by (metis of_nat_le_iff of_nat_numeral of_nat_power)
  then show ?thesis
    using to_float_small(1) [of "real n"] by (simp add: round64_of_nat [OF n])
qed

lemma to_float_0: "to_float 0 = Some 0"
  using to_float_of_nat [of 0] by simp

lemma to_float_1: "to_float 1 = Some 1"
  using to_float_of_nat [of 1] by simp

lemma to_float_10: "to_float 10 = Some 10"
  using to_float_of_nat [of 10] by simp

lemma to_float_100: "to_float 100 = Some 100"
  using to_float_of_nat [of 100] by simp

lemma is_float_round64:
  assumes "0 \<le> x" "x \<le> 2 ^ 53"
  shows "is_float (round64 x)"
proof -
  have "0 \<le> round64 x" by (rule round64_nonneg [OF assms(1)])
  moreover have "round64 x \<le> 2 ^ 53" by (rule to_float_small(2) [OF assms])
  moreover have "(2 :: real) ^ 53 \<le> max_float" by (simp add: max_float_def)
  ultimately show ?thesis by (simp add: is_float_def round64_idem [OF assms(1)])
qed



lemma lit_02: "round64 (2/10) = 3602879701896397 / 2 ^ 54"
  using round64_at [of "-3" "2/10"] by (simp add: rne_def powr_neg_numeral Let_def)

lemma lit_07: "round64 (7/10) = 3152519739159347 / 2 ^ 52"
  using round64_at [of "-1" "7/10"] by (simp add: rne_def powr_neg_numeral Let_def)

lemma lit_03: "round64 (3/10) = 5404319552844595 / 2 ^ 54"
  using round64_at [of "-2" "3/10"] by (simp add: rne_def powr_neg_numeral Let_def)

lemma lit_057: "round64 (57/100) = 5134103575202365 / 2 ^ 53"
  using round64_at [of "-1" "57/100"] by (simp add: rne_def powr_neg_numeral Let_def)

lemma lit_023: "round64 (23/100) = 8286623314361713 / 2 ^ 55"
  using round64_at [of "-3" "23/100"] by (simp add: rne_def powr_neg_numeral Let_def)






text \<open>0.7 + 0.3 = 1.0 and 10 * 0.7 = 7.0\<close>

lemma add_07_03: "fadd (3152519739159347 / 2 ^ 52) (5404319552844595 / 2 ^ 54) = Some 1"
  using round64_at [of "-1" "3152519739159347 / 2 ^ 52 + 5404319552844595 / 2 ^ 54"]
  by (simp add: fadd_def to_float_def max_float_def rne_def powr_neg_numeral Let_def)

lemma mul_10_07: "fmul 10 (3152519739159347 / 2 ^ 52) = Some 7"
  using round64_at [of 2 "10 * (3152519739159347 / 2 ^ 52)"]
  by (simp add: fmul_def to_float_def max_float_def rne_def powr_neg_numeral Let_def)

text \<open>0.57 + 0.23 = 0.7999999999999999, 0.2 more is 1.0; 100 * 0.57 = 56.99999999999999\<close>

lemma add_057_023: "fadd (5134103575202365 / 2 ^ 53) (8286623314361713 / 2 ^ 55) = Some (7205759403792793 / 2 ^ 53)"
  using round64_at [of "-1" "5134103575202365 / 2 ^ 53 + 8286623314361713 / 2 ^ 55"]
  by (simp add: fadd_def to_float_def max_float_def rne_def powr_neg_numeral Let_def)

lemma add_079_02: "fadd (7205759403792793 / 2 ^ 53) (3602879701896397 / 2 ^ 54) = Some 1"
  using round64_at [of "-1" "7205759403792793 / 2 ^ 53 + 3602879701896397 / 2 ^ 54"]
  by (simp add: fadd_def to_float_def max_float_def rne_def powr_neg_numeral Let_def)

lemma mul_100_057: "fmul 100 (5134103575202365 / 2 ^ 53) = Some (8022036836253695 / 2 ^ 47)"
  using round64_at [of 5 "100 * (5134103575202365 / 2 ^ 53)"]
  by (simp add: fmul_def to_float_def max_float_def rne_def powr_neg_numeral Let_def)

lemma mul_100_079: "fmul 100 (7205759403792793 / 2 ^ 53) = Some 80"
  using round64_at [of 6 "100 * (7205759403792793 / 2 ^ 53)"]
  by (simp add: fmul_def to_float_def max_float_def rne_def powr_neg_numeral Let_def)

section \<open>Facts about \<open>data_split\<close>\<close>

lemma py_slice_to: "py_slice None (Some (int a)) xs = take a xs"
  by (simp add: py_slice_def slice_bound_def min_def Let_def)

lemma py_slice_from: "py_slice (Some (int b)) None xs = drop b xs"
  by (simp add: py_slice_def slice_bound_def min_def Let_def)

lemma py_slice_between:
  "a \<le> b \<Longrightarrow> py_slice (Some (int a)) (Some (int b)) xs = take (b - a) (drop a xs)"
  by (auto simp add: py_slice_def slice_bound_def min_def Let_def)

lemma three_parts: "a \<le> b \<Longrightarrow> take a xs @ take (b - a) (drop a xs) @ drop b xs = xs"
proof -
  assume ab: "a \<le> b"
  have "drop b xs = drop (b - a) (drop a xs)" using ab by simp
  then have "take (b - a) (drop a xs) @ drop b xs = drop a xs"
    by (simp only: append_take_drop_id)
  then show ?thesis by simp
qed

lemma py_int_nonneg: "0 \<le> x \<Longrightarrow> py_int x = int (nat \<lfloor>x\<rfloor>)"
  by (simp add: py_int_def)

lemma split_points:
  assumes t: "is_float t" and nn: "0 \<le> t" "0 \<le> v" "0 \<le> s"
    and sum: "ratio_sum t v s = Some 1"
    and n: "n \<le> 2 ^ 53"
  shows "\<exists>tv p q. float_of_nat n = Some (real n) \<and> fadd t v = Some tv \<and>
           fmul (real n) t = Some p \<and> fmul (real n) tv = Some q \<and>
           0 \<le> p \<and> p \<le> q \<and> q \<le> real n"
proof -
  from sum obtain tv where tv: "fadd t v = Some tv" and one: "fadd tv s = Some 1"
    by (auto simp add: ratio_sum_def split: option.splits)
  have tvr: "tv = round64 (t + v)" using to_float_Some [of "t + v" tv] tv by (simp add: fadd_def)
  have oner: "round64 (tv + s) = 1" using to_float_Some [of "tv + s" 1] one by (simp add: fadd_def)
  have "t = round64 t" using t by (simp add: is_float_def)
  also have "\<dots> \<le> round64 (t + v)" using nn by (intro round64_mono) simp_all
  finally have t_tv: "t \<le> tv" by (simp add: tvr)
  then have tv0: "0 \<le> tv" using nn(1) by simp
  have "tv = round64 tv" unfolding tvr using nn by (simp add: round64_idem)
  also have "\<dots> \<le> round64 (tv + s)" using tv0 nn(3) by (intro round64_mono) simp_all
  finally have tv1: "tv \<le> 1" by (simp add: oner)
  have nr: "round64 (real n) = real n" by (rule round64_of_nat [OF n])
  have n53: "real n \<le> 2 ^ 53" using n by (metis of_nat_le_iff of_nat_numeral of_nat_power)
  have fn: "float_of_nat n = Some (real n)"
    using to_float_small(1) [of "real n"] n53 by (simp add: float_of_nat_def nr)
  have b1: "0 \<le> real n * t" "real n * t \<le> real n * tv" "real n * tv \<le> real n"
    using nn(1) t_tv tv1 by (simp_all add: mult_left_mono mult_left_le)
  have b2: "real n * t \<le> 2 ^ 53" "0 \<le> real n * tv" "real n * tv \<le> 2 ^ 53"
    using b1 n53 by linarith+
  have p: "fmul (real n) t = Some (round64 (real n * t))"
    using to_float_small(1) [OF b1(1) b2(1)] by (simp add: fmul_def)
  have q: "fmul (real n) tv = Some (round64 (real n * tv))"
    using to_float_small(1) [OF b2(2) b2(3)] by (simp add: fmul_def)
  have "0 \<le> round64 (real n * t)" by (rule round64_nonneg [OF b1(1)])
  moreover have "round64 (real n * t) \<le> round64 (real n * tv)"
    by (rule round64_mono [OF b1(1) b1(2)])
  moreover have "round64 (real n * tv) \<le> real n"
    using round64_mono [OF b2(2) b1(3)] by (simp add: nr)
  ultimately show ?thesis using fn tv p q by blast
qed

lemma data_split_value:
  assumes "ratio_sum t v s = Some 1" "float_of_nat (length E) = Some n"
    "fmul n t = Some p" "fadd t v = Some tv" "fmul n tv = Some q"
    "0 \<le> p" "p \<le> q"
  shows "data_split E n2 isat alpha t v s =
       Inr ((take (nat \<lfloor>p\<rfloor>) E, take (nat \<lfloor>p\<rfloor>) n2, take (nat \<lfloor>p\<rfloor>) isat, take (nat \<lfloor>p\<rfloor>) alpha),
            (take (nat \<lfloor>q\<rfloor> - nat \<lfloor>p\<rfloor>) (drop (nat \<lfloor>p\<rfloor>) E),
             take (nat \<lfloor>q\<rfloor> - nat \<lfloor>p\<rfloor>) (drop (nat \<lfloor>p\<rfloor>) n2),
             take (nat \<lfloor>q\<rfloor> - nat \<lfloor>p\<rfloor>) (drop (nat \<lfloor>p\<rfloor>) isat),
             take (nat \<lfloor>q\<rfloor> - nat \<lfloor>p\<rfloor>) (drop (nat \<lfloor>p\<rfloor>) alpha)),
            (drop (nat \<lfloor>q\<rfloor>) E, drop (nat \<lfloor>q\<rfloor>) n2, drop (nat \<lfloor>q\<rfloor>) isat, drop (nat \<lfloor>q\<rfloor>) alpha))"
proof -
  have q0: "0 \<le> q" using assms(6,7) by simp
  have i1: "py_int p = int (nat \<lfloor>p\<rfloor>)" by (rule py_int_nonneg [OF assms(6)])
  have i2: "py_int q = int (nat \<lfloor>q\<rfloor>)" by (rule py_int_nonneg [OF q0])
  have le: "nat \<lfloor>p\<rfloor> \<le> nat \<lfloor>q\<rfloor>" using assms(7) by (intro nat_mono floor_mono)
  show ?thesis
    unfolding data_split_def assms(1-5) option.case Let_def i1 i2
      py_slice_to py_slice_from py_slice_between [OF le]
    by simp
qed




lemma ratio_sum_07_03_0:
  "ratio_sum (round64 (7/10)) (round64 (3/10)) 0 = Some 1"
  unfolding ratio_sum_def lit_07 lit_03 add_07_03 option.case by (simp add: fadd_def to_float_1)

lemma ratio_sum_057_023_02:
  "ratio_sum (round64 (57/100)) (round64 (23/100)) (round64 (2/10)) = Some 1"
  unfolding ratio_sum_def lit_057 lit_023 lit_02 add_057_023 option.case add_079_02 ..

lemma ratio_sum_1_m1_1: "ratio_sum 1 (-1) 1 = Some 1"
  by (simp add: ratio_sum_def fadd_def to_float_0 to_float_1)



text \<open>
  C2, as stated, for every three ratios that sum to 1. The ratios \<open>(1, -1, 1)\<close> sum to
  1 and pass the assertion; on a dataset of one sample the split points are 1 and 0, so
  the sample is in the training part and again in the test part: the sizes sum to 2 and
  the concatenation is not the input. And the split point is the floor of the rounded
  product, not of the exact one: for \<open>(0.7, 0.3, 0.0)\<close> and ten samples the training
  part is \<open>[0, 7)\<close>, while the exact product of 10 and the float \<open>0.7\<close> is under 7.
\<close>

theorem data_split_partition_counterexample:
  "ratio_sum 1 (-1) 1 = Some 1 \<and>
   data_split [7 :: nat] [1 :: nat] [2] [3] 1 (-1) 1 =
     Inr (([7], [1], [2], [3]), ([], [], [], []), ([7], [1], [2], [3])) \<and>
   length [7 :: nat] + length ([] :: nat list) + length [7 :: nat] \<noteq> length [7 :: nat] \<and>
   [7 :: nat] @ [] @ [7] \<noteq> [7] \<and>
   ratio_sum (round64 (7/10)) (round64 (3/10)) 0 = Some 1 \<and>
   data_split [0..<10] [10..<20] [20..<30] [30..<40] (round64 (7/10)) (round64 (3/10)) 0 =
     Inr (([0..<7], [10..<17], [20..<27], [30..<37]),
          ([7..<10], [17..<20], [27..<30], [37..<40]),
          ([], [], [], [])) \<and>
   nat \<lfloor>real 10 * round64 (7/10)\<rfloor> = 6"
proof -
  have 1: "data_split [7 :: nat] [1 :: nat] [2] [3] 1 (-1) 1 =
     Inr (([7], [1], [2], [3]), ([], [], [], []), ([7], [1], [2], [3]))"
    by (simp add: data_split_def ratio_sum_1_m1_1 float_of_nat_def fmul_def fadd_def
        to_float_0 to_float_1 py_int_def py_slice_def slice_bound_def)
  have n: "float_of_nat (length [0..<10]) = Some 10"
    by (simp add: float_of_nat_def to_float_10)
  have p: "fmul 10 (round64 (7/10)) = Some 7" unfolding lit_07 by (rule mul_10_07)
  have tv: "fadd (round64 (7/10)) (round64 (3/10)) = Some 1"
    unfolding lit_07 lit_03 by (rule add_07_03)
  have q: "fmul 10 1 = Some 10" by (simp add: fmul_def to_float_10)
  have 2: "data_split [0..<10] [10..<20] [20..<30] [30..<40] (round64 (7/10)) (round64 (3/10)) 0 =
     Inr (([0..<7], [10..<17], [20..<27], [30..<37]),
          ([7..<10], [17..<20], [27..<30], [37..<40]),
          ([], [], [], []))"
    using data_split_value [OF ratio_sum_07_03_0 n p tv q, of "[10..<20]" "[20..<30]" "[30..<40]"]
    by simp
  have 3: "nat \<lfloor>real 10 * round64 (7/10)\<rfloor> = 6"
    unfolding lit_07 by simp
  show ?thesis using ratio_sum_1_m1_1 1 ratio_sum_07_03_0 2 3 by simp
qed

text \<open>
  C2, amended: for a dataset of \<open>N\<close> samples (\<open>N\<close> at most \<open>2^53\<close>) and float ratios
  that are each at least 0 and pass the assertion, the three parts are the slices
  \<open>[0, a)\<close>, \<open>[a, b)\<close>, \<open>[b, N)\<close> of every input array, where \<open>a\<close> is the floor of
  the float product \<open>N * train_ratio\<close> and \<open>b\<close> the floor of the float product of \<open>N\<close>
  and the float sum \<open>train_ratio + validation_ratio\<close>, and \<open>a \<le> b \<le> N\<close>; the sizes
  of the three dataset parts sum to \<open>N\<close>, and the three parts of each array,
  concatenated in order, are that array. The witness is \<open>(0.57, 0.23, 0.2)\<close> on 100
  samples, split at 56 and 80.
\<close>

theorem data_split_partition:
  assumes t: "is_float t" and nn: "0 \<le> t" "0 \<le> v" "0 \<le> s"
    and sum: "ratio_sum t v s = Some 1"
    and n: "length E \<le> 2 ^ 53"
  shows "\<exists>tv p q a b.
     fadd t v = Some tv \<and> fmul (real (length E)) t = Some p \<and> fmul (real (length E)) tv = Some q \<and>
     a = nat \<lfloor>p\<rfloor> \<and> b = nat \<lfloor>q\<rfloor> \<and> a \<le> b \<and> b \<le> length E \<and>
     data_split E n2 isat alpha t v s =
       Inr ((take a E, take a n2, take a isat, take a alpha),
            (take (b - a) (drop a E), take (b - a) (drop a n2),
             take (b - a) (drop a isat), take (b - a) (drop a alpha)),
            (drop b E, drop b n2, drop b isat, drop b alpha)) \<and>
     length (take a E) + length (take (b - a) (drop a E)) + length (drop b E) = length E \<and>
     take a E @ take (b - a) (drop a E) @ drop b E = E \<and>
     take a n2 @ take (b - a) (drop a n2) @ drop b n2 = n2 \<and>
     take a isat @ take (b - a) (drop a isat) @ drop b isat = isat \<and>
     take a alpha @ take (b - a) (drop a alpha) @ drop b alpha = alpha"
proof -
  from split_points [OF t nn sum n] obtain tv p q where
    fn: "float_of_nat (length E) = Some (real (length E))" and tv: "fadd t v = Some tv"
    and p: "fmul (real (length E)) t = Some p" and q: "fmul (real (length E)) tv = Some q"
    and b: "0 \<le> p" "p \<le> q" "q \<le> real (length E)" by blast
  let ?a = "nat \<lfloor>p\<rfloor>" and ?b = "nat \<lfloor>q\<rfloor>"
  have le: "?a \<le> ?b" using b(2) by (intro nat_mono floor_mono)
  have "\<lfloor>q\<rfloor> \<le> int (length E)" using b(3) by (simp add: floor_le_iff)
  then have leN: "?b \<le> length E" by linarith
  have v: "data_split E n2 isat alpha t v s =
       Inr ((take ?a E, take ?a n2, take ?a isat, take ?a alpha),
            (take (?b - ?a) (drop ?a E), take (?b - ?a) (drop ?a n2),
             take (?b - ?a) (drop ?a isat), take (?b - ?a) (drop ?a alpha)),
            (drop ?b E, drop ?b n2, drop ?b isat, drop ?b alpha))"
    by (rule data_split_value [OF sum fn p tv q b(1,2)])
  have len: "length (take ?a E) + length (take (?b - ?a) (drop ?a E)) + length (drop ?b E) = length E"
    using le leN by simp
  show ?thesis
    by (intro exI [of _ tv] exI [of _ p] exI [of _ q] exI [of _ ?a] exI [of _ ?b] conjI refl
        tv p q le leN v len three_parts [OF le])
qed

theorem data_split_partition_witness:
  "is_float (round64 (57/100)) \<and> (0 :: real) \<le> round64 (57/100) \<and>
   (0 :: real) \<le> round64 (23/100) \<and> (0 :: real) \<le> round64 (2/10) \<and>
   ratio_sum (round64 (57/100)) (round64 (23/100)) (round64 (2/10)) = Some 1 \<and>
   data_split [0..<100] [100..<200] [200..<300] [300..<400]
       (round64 (57/100)) (round64 (23/100)) (round64 (2/10)) =
     Inr (([0..<56], [100..<156], [200..<256], [300..<356]),
          ([56..<80], [156..<180], [256..<280], [356..<380]),
          ([80..<100], [180..<200], [280..<300], [380..<400]))"
proof -
  have f: "is_float (round64 (57/100))" by (rule is_float_round64) simp_all
  have nn: "(0 :: real) \<le> round64 (57/100)" "(0 :: real) \<le> round64 (23/100)"
    "(0 :: real) \<le> round64 (2/10)"
    by (simp_all add: round64_nonneg)
  have n: "length [0..<100] \<le> 2 ^ 53" by simp
  from data_split_partition [OF f nn ratio_sum_057_023_02 n, of "[100..<200]" "[200..<300]" "[300..<400]"]
  obtain tv p q a b where
    tv: "fadd (round64 (57/100)) (round64 (23/100)) = Some tv"
    and p: "fmul (real (length [0..<100])) (round64 (57/100)) = Some p"
    and q: "fmul (real (length [0..<100])) tv = Some q"
    and a: "a = nat \<lfloor>p\<rfloor>" and b: "b = nat \<lfloor>q\<rfloor>"
    and v: "data_split [0..<100] [100..<200] [200..<300] [300..<400]
       (round64 (57/100)) (round64 (23/100)) (round64 (2/10)) =
       Inr ((take a [0..<100], take a [100..<200], take a [200..<300], take a [300..<400]),
            (take (b - a) (drop a [0..<100]), take (b - a) (drop a [100..<200]),
             take (b - a) (drop a [200..<300]), take (b - a) (drop a [300..<400])),
            (drop b [0..<100], drop b [100..<200], drop b [200..<300], drop b [300..<400]))"
    by blast
  have tv': "tv = 7205759403792793 / 2 ^ 53"
    using tv unfolding lit_057 lit_023 add_057_023 by simp
  have l: "real (length [0..<100]) = 100" by simp
  have p': "p = 8022036836253695 / 2 ^ 47"
    using p unfolding l lit_057 mul_100_057 by simp
  have q': "q = 80"
    using q unfolding l tv' mul_100_079 by simp
  have a': "a = 56" unfolding a p' by simp
  have b': "b = 80" unfolding b q' by simp
  show ?thesis using f nn ratio_sum_057_023_02 v unfolding a' b' by simp
qed

section \<open>Facts about \<open>data_augmentation\<close>\<close>

lemma length_np_repeat: "length (np_repeat xs k) = length xs * k"
  by (induction xs) (simp_all add: np_repeat_def)

lemma nth_np_repeat: "i < length xs * k \<Longrightarrow> np_repeat xs k ! i = xs ! (i div k)"
proof (induction xs arbitrary: i)
  case Nil
  then show ?case by simp
next
  case (Cons x xs)
  have k: "0 < k" using Cons.prems by (cases k) simp_all
  have unf: "np_repeat (x # xs) k = replicate k x @ np_repeat xs k"
    by (simp add: np_repeat_def)
  show ?case
  proof (cases "i < k")
    case True
    then show ?thesis by (simp add: unf nth_append)
  next
    case False
    then have "i - k < length xs * k" using Cons.prems by simp
    then have "np_repeat xs k ! (i - k) = xs ! ((i - k) div k)" by (rule Cons.IH)
    moreover have "i div k = Suc ((i - k) div k)"
      using False k by (simp add: le_div_geq)
    ultimately show ?thesis using False by (simp add: unf nth_append)
  qed
qed

lemma fancy_index_ok:
  "(\<And>i. i \<in> set idx \<Longrightarrow> i < length a) \<Longrightarrow> fancy_index a idx = Inr (map (nth a) idx)"
  by (simp add: fancy_index_def list_all_iff)

lemma fancy_index_error_iff:
  "fancy_index a idx = Inl e \<longleftrightarrow> e = IndexError \<and> (\<exists>i \<in> set idx. length a \<le> i)"
  by (auto simp add: fancy_index_def list_all_iff not_less)

lemma shuffled_indices:
  assumes "mset idx = mset [0..<n]"
  shows "set idx = {..<n}" and "length idx = n" and "distinct idx"
proof -
  show "set idx = {..<n}" using mset_eq_setD [OF assms] by (simp add: atLeast0LessThan)
  show "length idx = n" using mset_eq_length [OF assms] by simp
  show "distinct idx" using mset_eq_imp_distinct_iff [OF assms] by simp
qed

lemma fancy_index_shuffled_error:
  assumes "mset idx = mset [0..<n]"
  shows "fancy_index a idx = Inl IndexError \<longleftrightarrow> length a < n"
proof -
  have "(\<exists>i \<in> set idx. length a \<le> i) \<longleftrightarrow> length a < n"
    unfolding shuffled_indices(1) [OF assms] by auto
  then show ?thesis by (simp add: fancy_index_error_iff)
qed

lemma fancy_index_shuffled_ok:
  assumes "mset idx = mset [0..<n]" and "n \<le> length a"
  shows "fancy_index a idx = Inr (map (nth a) idx)"
  using assms(2) shuffled_indices(1) [OF assms(1)] by (intro fancy_index_ok) auto

lemma data_augmentation_value:
  assumes sh: "\<And>xs. mset (shuffle xs) = mset xs"
    and "length n2 \<le> length isat" "length n2 \<le> length alpha" "length n2 \<le> length E"
  shows "data_augmentation shuffle E (c1, n2, c2, isat, c3, alpha) =
     (let idx = shuffle [0..<length n2] in
      Inr (np_repeat (map (nth E) idx) 16,
           (c1, np_repeat (map (nth n2) idx) 16,
            c2, np_repeat (map (nth isat) idx) 16,
            c3, np_repeat (map (nth alpha) idx) 16)))"
proof -
  have m: "mset (shuffle [0..<length n2]) = mset [0..<length n2]" by (rule sh)
  show ?thesis
    using assms(2-4)
    by (simp add: data_augmentation_def Let_def augmentation_def
        fancy_index_shuffled_ok [OF m])
qed

text \<open>
  C1: for a dataset of \<open>N\<close> samples and three label arrays of length \<open>N\<close>, whatever the
  shuffle draws, the call returns a dataset and three label arrays of length \<open>N * 16\<close>,
  and one permutation \<open>p\<close> of \<open>{0..N-1}\<close> places all four: entry \<open>i\<close> of each output
  is entry \<open>p (i div 16)\<close> of the corresponding input. The three counts are returned as
  they came.
\<close>

theorem data_augmentation_aligned:
  assumes sh: "\<And>xs. mset (shuffle xs) = mset xs"
    and len: "length n2 = length E" "length isat = length E" "length alpha = length E"
  shows "\<exists>p aug n2' isat' alpha'.
     bij_betw p {..<length E} {..<length E} \<and>
     data_augmentation shuffle E (c1, n2, c2, isat, c3, alpha) =
       Inr (aug, (c1, n2', c2, isat', c3, alpha')) \<and>
     length aug = length E * 16 \<and> length n2' = length E * 16 \<and>
     length isat' = length E * 16 \<and> length alpha' = length E * 16 \<and>
     (\<forall>i < length E * 16.
        aug ! i = E ! p (i div 16) \<and> n2' ! i = n2 ! p (i div 16) \<and>
        isat' ! i = isat ! p (i div 16) \<and> alpha' ! i = alpha ! p (i div 16))"
proof -
  let ?n = "length E"
  let ?idx = "shuffle [0..<?n]"
  have m: "mset ?idx = mset [0..<?n]" by (rule sh)
  note si = shuffled_indices [OF m]
  have bij: "bij_betw (nth ?idx) {..<?n} {..<?n}"
    by (rule bij_betw_nth) (simp_all add: si)
  have val: "data_augmentation shuffle E (c1, n2, c2, isat, c3, alpha) =
      Inr (np_repeat (map (nth E) ?idx) 16,
           (c1, np_repeat (map (nth n2) ?idx) 16,
            c2, np_repeat (map (nth isat) ?idx) 16,
            c3, np_repeat (map (nth alpha) ?idx) 16))"
    using data_augmentation_value [OF sh, of n2 isat alpha E c1 c2 c3] len
    by (simp add: Let_def)
  have nth: "np_repeat (map (nth a) ?idx) 16 ! i = a ! (?idx ! (i div 16))"
    if "i < ?n * 16" for i and a :: "'z list"
  proof -
    have "i div 16 < ?n" using that by (simp add: less_mult_imp_div_less)
    then show ?thesis using that by (simp add: nth_np_repeat si)
  qed
  show ?thesis
    apply (intro exI [of _ "nth ?idx"] exI conjI bij)
         apply (rule val)
        apply (simp_all add: length_np_repeat si nth)
    done
qed

theorem data_augmentation_aligned_witness:
  "(\<forall>xs :: nat list. mset (rev xs) = mset xs) \<and>
   data_augmentation rev [[[[1 :: real]]], [[[2]]]] (3 :: nat, [10 :: real, 20], 4, [30, 40], 5, [50, 60]) =
     Inr (replicate 16 [[[2]]] @ replicate 16 [[[1]]],
          (3, replicate 16 20 @ replicate 16 10,
           4, replicate 16 40 @ replicate 16 30,
           5, replicate 16 60 @ replicate 16 50)) \<and>
   (\<exists>p aug n2' isat' alpha'.
     bij_betw p {..<length [[[[1 :: real]]], [[[2]]]]} {..<length [[[[1 :: real]]], [[[2]]]]} \<and>
     data_augmentation rev [[[[1 :: real]]], [[[2]]]] (3 :: nat, [10 :: real, 20], 4, [30, 40], 5, [50, 60]) =
       Inr (aug, (3, n2', 4, isat', 5, alpha')) \<and>
     length aug = 32 \<and> length n2' = 32 \<and> length isat' = 32 \<and> length alpha' = 32)"
proof -
  have sh: "\<And>xs :: nat list. mset (rev xs) = mset xs" by simp
  have v: "data_augmentation rev [[[[1 :: real]]], [[[2]]]] (3 :: nat, [10 :: real, 20], 4, [30, 40], 5, [50, 60]) =
     Inr (replicate 16 [[[2]]] @ replicate 16 [[[1]]],
          (3, replicate 16 20 @ replicate 16 10,
           4, replicate 16 40 @ replicate 16 30,
           5, replicate 16 60 @ replicate 16 50))"
    by (simp add: data_augmentation_def fancy_index_def np_repeat_def augmentation_def
        upt_rec [of 0] upt_rec [of 1])
  from data_augmentation_aligned [OF sh, of "[10 :: real, 20]" "[[[[1 :: real]]], [[[2]]]]"
      "[30, 40]" "[50, 60]" "3 :: nat" 4 5]
  obtain p aug n2' isat' alpha' where
    "bij_betw p {..<length [[[[1 :: real]]], [[[2]]]]} {..<length [[[[1 :: real]]], [[[2]]]]}"
    "data_augmentation rev [[[[1 :: real]]], [[[2]]]] (3 :: nat, [10 :: real, 20], 4, [30, 40], 5, [50, 60]) =
       Inr (aug, (3, n2', 4, isat', 5, alpha'))"
    "length aug = 32" "length n2' = 32" "length isat' = 32" "length alpha' = 32"
    by auto
  then show ?thesis using v sh by blast
qed

text \<open>
  C8, as stated: the call fails with an indexing error whenever the three label arrays
  are not all as long as the dataset. The index array is built from the length of
  \<open>n2_labels\<close> alone, so an array longer than \<open>n2_labels\<close> is indexed without error:
  with one sample, one n2 label, one alpha label and two isat labels the call returns.
\<close>

theorem data_augmentation_index_error_counterexample:
  "length [30 :: real, 40] \<noteq> length [[[[1 :: real]]]] \<and>
   data_augmentation rev [[[[1 :: real]]]] (3 :: nat, [10 :: real], 4, [30, 40], 5, [50]) =
     Inr (replicate 16 [[[1]]], (3, replicate 16 10, 4, replicate 16 30, 5, replicate 16 50))"
  by (simp add: data_augmentation_def fancy_index_def np_repeat_def augmentation_def)

text \<open>
  C8, amended: the call fails with IndexError exactly when \<open>isat_labels\<close>,
  \<open>alpha_labels\<close> or the dataset is shorter than \<open>n2_labels\<close>; otherwise, also when
  one of them is longer, it returns.
\<close>

theorem data_augmentation_index_error:
  assumes sh: "\<And>xs. mset (shuffle xs) = mset xs"
  shows "(data_augmentation shuffle E (c1, n2, c2, isat, c3, alpha) = Inl IndexError)
           = (length isat < length n2 \<or> length alpha < length n2 \<or> length E < length n2)
       \<and> returned (data_augmentation shuffle E (c1, n2, c2, isat, c3, alpha))
           = (length n2 \<le> length isat \<and> length n2 \<le> length alpha \<and> length n2 \<le> length E)"
proof -
  have m: "mset (shuffle [0..<length n2]) = mset [0..<length n2]" by (rule sh)
  have n2ok: "fancy_index n2 (shuffle [0..<length n2]) = Inr (map (nth n2) (shuffle [0..<length n2]))"
    by (rule fancy_index_shuffled_ok [OF m]) simp
  note e = fancy_index_shuffled_error [OF m]
  show ?thesis
  proof (cases "length n2 \<le> length isat \<and> length n2 \<le> length alpha \<and> length n2 \<le> length E")
    case True
    then show ?thesis
      using data_augmentation_value [OF sh, of n2 isat alpha E c1 c2 c3]
      by (auto simp add: Let_def returned_def)
  next
    case False
    have "data_augmentation shuffle E (c1, n2, c2, isat, c3, alpha) = Inl IndexError"
    proof (cases "length isat < length n2")
      case True
      then show ?thesis
        using e [of isat] by (simp add: data_augmentation_def Let_def n2ok)
    next
      case i: False
      then have iok: "fancy_index isat (shuffle [0..<length n2]) = Inr (map (nth isat) (shuffle [0..<length n2]))"
        by (intro fancy_index_shuffled_ok [OF m]) simp
      show ?thesis
      proof (cases "length alpha < length n2")
        case True
        then show ?thesis
          using e [of alpha] by (simp add: data_augmentation_def Let_def n2ok iok)
      next
        case a: False
        then have aok: "fancy_index alpha (shuffle [0..<length n2]) = Inr (map (nth alpha) (shuffle [0..<length n2]))"
          by (intro fancy_index_shuffled_ok [OF m]) simp
        have "length E < length n2" using False i a by simp
        then show ?thesis
          using e [of E] by (simp add: data_augmentation_def Let_def n2ok iok aok)
      qed
    qed
    then show ?thesis using False by (auto simp add: returned_def)
  qed
qed

theorem data_augmentation_index_error_witness:
  "(\<forall>xs :: nat list. mset (rev xs) = mset xs) \<and>
   data_augmentation rev [[[[1 :: real]]], [[[2]]]] (3 :: nat, [10 :: real, 20], 4, [30], 5, [50, 60])
     = Inl IndexError \<and>
   returned (data_augmentation rev [[[[1 :: real]]], [[[2]]], [[[3]]]] (3 :: nat, [10 :: real, 20], 4, [30, 40], 5, [50, 60]))"
proof -
  have sh: "\<And>xs :: nat list. mset (rev xs) = mset xs" by simp
  show ?thesis
    using data_augmentation_index_error [OF sh, of "[[[[1 :: real]]], [[[2]]]]" "3 :: nat"
        "[10 :: real, 20]" 4 "[30]" 5 "[50, 60]"]
      data_augmentation_index_error [OF sh, of "[[[[1 :: real]]], [[[2]]], [[[3]]]]" "3 :: nat"
        "[10 :: real, 20]" 4 "[30, 40]" 5 "[50, 60]"]
    by simp
qed

section \<open>Facts about \<open>normalize_data\<close>\<close>













section \<open>Facts about \<open>experiment_noise\<close>\<close>

lemma experiment_noise_value:
  assumes "0 \<le> lam" "0 \<le> sigma"
  shows "experiment_noise P G beam lam sigma =
     Inr (map (\<lambda>i. map (\<lambda>j. Complex (Re (beam ! i ! j) + (G i j + real (P i j) * lam * 0.75))
                                  (Im (beam ! i ! j)))
               [0..<length (beam ! i)]) [0..<length beam])"
proof -
  have c: "of_real a + of_real b + \<i> * of_real d = Complex (a + b) d" for a b d :: real
    by (simp add: complex_eq_iff)
  show ?thesis using assms by (simp add: experiment_noise_def Let_def c)
qed

text \<open>
  C7: whatever the samplers draw (\<open>P\<close> from the Poisson sampler at rate
  \<open>poisson_noise_lam\<close>, \<open>G\<close> from the Gaussian sampler with standard deviation
  \<open>normal_noise_sigma\<close>, both accepted by numpy: neither parameter negative), the call
  returns an array of the shape of \<open>beam\<close> whose entry at each pixel has real part
  \<open>real(beam) + P * poisson_noise_lam * 0.75 + G\<close> and the imaginary part of \<open>beam\<close>.
\<close>

theorem experiment_noise_real_part_only:
  assumes "0 \<le> lam" "0 \<le> sigma"
  shows "\<exists>out. experiment_noise P G beam lam sigma = Inr out \<and> length out = length beam \<and>
     (\<forall>i < length beam. length (out ! i) = length (beam ! i) \<and>
        (\<forall>j < length (beam ! i).
           Re (out ! i ! j) = Re (beam ! i ! j) + real (P i j) * lam * 0.75 + G i j \<and>
           Im (out ! i ! j) = Im (beam ! i ! j)))"
  unfolding experiment_noise_value [OF assms] by simp

theorem experiment_noise_real_part_only_witness:
  "(0 :: real) \<le> 2 \<and> (0 :: real) \<le> 1/2 \<and>
   experiment_noise (\<lambda>i j. 3) (\<lambda>i j. 1/4) [[Complex 1 5, Complex 2 6]] 2 (1/2)
     = Inr [[Complex (1 + 3 * 2 * 0.75 + 1/4) 5, Complex (2 + 3 * 2 * 0.75 + 1/4) 6]] \<and>
   (\<exists>out. experiment_noise (\<lambda>i j. 3) (\<lambda>i j. 1/4) [[Complex 1 5, Complex 2 6]] 2 (1/2) = Inr out \<and>
      Im (out ! 0 ! 1) = 6)"
proof -
  have h: "(0 :: real) \<le> 2" "(0 :: real) \<le> 1/2" by simp_all
  have v: "experiment_noise (\<lambda>i j. 3) (\<lambda>i j. 1/4) [[Complex 1 5, Complex 2 6]] 2 (1/2)
     = Inr [[Complex (1 + 3 * 2 * 0.75 + 1/4) 5, Complex (2 + 3 * 2 * 0.75 + 1/4) 6]]"
    by (simp add: experiment_noise_def Let_def complex_eq_iff upt_rec [of 0] upt_rec [of 1])
  from experiment_noise_real_part_only [OF h, of "\<lambda>i j. 3" "\<lambda>i j. 1/4" "[[Complex 1 5, Complex 2 6]]"]
  obtain out where "experiment_noise (\<lambda>i j. 3) (\<lambda>i j. 1/4) [[Complex 1 5, Complex 2 6]] 2 (1/2) = Inr out"
    "Im (out ! 0 ! 1) = 6" by auto
  then show ?thesis using h v by blast
qed

section \<open>Facts about \<open>line_noise\<close>\<close>

lemma width_rect:
  assumes "\<And>r. r \<in> set img \<Longrightarrow> length r = w" and "img \<noteq> []"
  shows "width img = w"
  using assms by (cases img) (simp_all add: width_def)

lemma diagonal_pos: "0 < h \<Longrightarrow> 0 < diagonal_length w h"
  by (simp add: diagonal_length_def add_nonneg_pos)

lemma cos_lt_one:
  fixes x :: real
  assumes "0 < x" "x < 2 * pi"
  shows "cos x \<noteq> 1"
proof
  assume "cos x = 1"
  then obtain m :: int where m: "x = of_int m * 2 * pi" using cos_one_2pi_int by blast
  have "0 < of_int m * (2 * pi)" using assms(1) m by (simp add: mult.assoc)
  then have "0 < (of_int m :: real)" by (simp add: zero_less_mult_iff)
  then have m1: "1 \<le> m" by simp
  have "of_int m * (2 * pi) < 1 * (2 * pi)" using assms(2) m by (simp add: mult.assoc)
  then have "(of_int m :: real) < 1"
    using mult_less_cancel_right_pos [of "2 * pi" "of_int m" 1] by simp
  then have "m < 1" by simp
  with m1 show False by simp
qed

lemma lines_pattern_period:
  assumes "num_lines \<noteq> 0" and "0 < h"
  shows "lines_pattern amplitude (wave_frequency num_lines w h)
            (u + diagonal_length w h / of_int num_lines)
         = lines_pattern amplitude (wave_frequency num_lines w h) u"
proof -
  have d: "diagonal_length w h \<noteq> 0" using diagonal_pos [OF assms(2), of w] by simp
  have "(u + diagonal_length w h / of_int num_lines) * wave_frequency num_lines w h
        = u * wave_frequency num_lines w h + 2 * pi"
    using d assms(1) by (simp add: wave_frequency_def field_simps)
  then show ?thesis by (simp add: lines_pattern_def)
qed

lemma lines_pattern_no_shorter_period:
  assumes n: "0 < num_lines" and h: "0 < h" and a: "amplitude \<noteq> 0"
    and p: "0 < p" "p < diagonal_length w h / of_int num_lines"
  shows "\<exists>u. lines_pattern amplitude (wave_frequency num_lines w h) (u + p)
             \<noteq> lines_pattern amplitude (wave_frequency num_lines w h) u"
proof -
  let ?k = "wave_frequency num_lines w h"
  have d: "0 < diagonal_length w h" by (rule diagonal_pos [OF h])
  have k: "0 < ?k" using d n by (simp add: wave_frequency_def)
  have "p * ?k < (diagonal_length w h / of_int num_lines) * ?k"
    by (rule mult_strict_right_mono [OF p(2) k])
  also have "\<dots> = 2 * pi" using d n by (simp add: wave_frequency_def)
  finally have lt: "p * ?k < 2 * pi" .
  have gt: "0 < p * ?k" using p(1) k by simp
  let ?u = "pi / (2 * ?k)"
  have uk: "?u * ?k = pi / 2" using k by simp
  have "(?u + p) * ?k = pi / 2 + p * ?k" using uk by (simp add: distrib_right)
  then have 1: "lines_pattern amplitude ?k (?u + p) = amplitude * cos (p * ?k)"
    by (simp add: lines_pattern_def sin_add)
  have 2: "lines_pattern amplitude ?k ?u = amplitude"
    unfolding lines_pattern_def uk by simp
  have "amplitude * cos (p * ?k) \<noteq> amplitude"
    using cos_lt_one [OF gt lt] a by simp
  then show ?thesis using 1 2 by metis
qed

lemma line_noise_nth:
  assumes rect: "\<And>r. r \<in> set img \<Longrightarrow> length r = w" and "length img = h" "y < h" "x < w"
  shows "line_noise img num_lines amplitude angle ! y ! x =
     img ! y ! x + lines_pattern amplitude (wave_frequency num_lines w h)
                     (real x * cos (radians angle) + real y * sin (radians angle))"
proof -
  have ne: "img \<noteq> []" using assms(2,3) by auto
  have w: "width img = w" by (rule width_rect [OF rect ne])
  show ?thesis using assms(2-4) by (simp add: line_noise_def Let_def w)
qed

lemma line_noise_shape:
  assumes rect: "\<And>r. r \<in> set img \<Longrightarrow> length r = w" and "length img = h" "y < h"
  shows "length (line_noise img num_lines amplitude angle) = h"
    and "length (line_noise img num_lines amplitude angle ! y) = w"
proof -
  have ne: "img \<noteq> []" using assms(2,3) by auto
  have w: "width img = w" by (rule width_rect [OF rect ne])
  show "length (line_noise img num_lines amplitude angle) = h"
    using assms(2) by (simp add: line_noise_def Let_def)
  show "length (line_noise img num_lines amplitude angle ! y) = w"
    using assms(2,3) by (simp add: line_noise_def Let_def w)
qed

text \<open>
  C6: on an image of \<open>h\<close> rows and \<open>w\<close> columns, the value at row \<open>y\<close>, column \<open>x\<close>
  is \<open>image + amplitude * sin ((x cos a + y sin a) * 2 pi num_lines / sqrt (w^2 + h^2))\<close>
  with \<open>a\<close> the angle in radians, and the result has the shape of the image. The phase
  advances by \<open>num_lines\<close> full turns over a length equal to the diagonal; for
  \<open>num_lines\<close> not zero the pattern repeats after \<open>sqrt (w^2 + h^2) / num_lines\<close> in the
  rotated coordinate, and for positive \<open>num_lines\<close> and nonzero amplitude after no
  shorter positive length: that is its period, and \<open>num_lines\<close> periods span the
  diagonal.
\<close>

theorem line_noise_fringes:
  assumes rect0: "list_all (\<lambda>r. length r = w) img" and "length img = h" "y < h" "x < w"
  shows "line_noise img num_lines amplitude angle ! y ! x =
           img ! y ! x + amplitude * sin ((real x * cos (angle * pi / 180) + real y * sin (angle * pi / 180))
              * (2 * pi * of_int num_lines / sqrt (real w ^ 2 + real h ^ 2)))
       \<and> length (line_noise img num_lines amplitude angle) = h
       \<and> length (line_noise img num_lines amplitude angle ! y) = w
       \<and> wave_frequency num_lines w h * sqrt (real w ^ 2 + real h ^ 2) = of_int num_lines * (2 * pi)
       \<and> (num_lines \<noteq> 0 \<longrightarrow>
            (\<forall>u. lines_pattern amplitude (wave_frequency num_lines w h)
                    (u + sqrt (real w ^ 2 + real h ^ 2) / of_int num_lines)
                = lines_pattern amplitude (wave_frequency num_lines w h) u))
       \<and> (0 < num_lines \<and> amplitude \<noteq> 0 \<longrightarrow>
            (\<forall>p. 0 < p \<and> p < sqrt (real w ^ 2 + real h ^ 2) / of_int num_lines \<longrightarrow>
               (\<exists>u. lines_pattern amplitude (wave_frequency num_lines w h) (u + p)
                   \<noteq> lines_pattern amplitude (wave_frequency num_lines w h) u)))"
proof -
  have rect: "\<And>r. r \<in> set img \<Longrightarrow> length r = w"
    using rect0 by (simp add: list_all_iff)
  have h: "0 < h" using assms(3) by simp
  have dl: "diagonal_length w h = sqrt (real w ^ 2 + real h ^ 2)"
    by (simp add: diagonal_length_def)
  have d: "diagonal_length w h \<noteq> 0" using diagonal_pos [OF h, of w] by simp
  have 1: "line_noise img num_lines amplitude angle ! y ! x =
           img ! y ! x + amplitude * sin ((real x * cos (angle * pi / 180) + real y * sin (angle * pi / 180))
              * (2 * pi * of_int num_lines / sqrt (real w ^ 2 + real h ^ 2)))"
  proof -
    have "line_noise img num_lines amplitude angle ! y ! x =
       img ! y ! x + lines_pattern amplitude (wave_frequency num_lines w h)
                     (real x * cos (radians angle) + real y * sin (radians angle))"
      by (rule line_noise_nth [OF rect assms(2-4)])
    also have "wave_frequency num_lines w h = 2 * pi * of_int num_lines / sqrt (real w ^ 2 + real h ^ 2)"
      by (simp add: wave_frequency_def dl mult.commute mult.left_commute)
    finally show ?thesis by (simp add: lines_pattern_def radians_def)
  qed
  have 4: "wave_frequency num_lines w h * sqrt (real w ^ 2 + real h ^ 2) = of_int num_lines * (2 * pi)"
    using d unfolding dl [symmetric] by (simp add: wave_frequency_def)
  have 5: "num_lines \<noteq> 0 \<longrightarrow>
            (\<forall>u. lines_pattern amplitude (wave_frequency num_lines w h)
                    (u + sqrt (real w ^ 2 + real h ^ 2) / of_int num_lines)
                = lines_pattern amplitude (wave_frequency num_lines w h) u)"
    unfolding dl [symmetric] using lines_pattern_period [OF _ h] by blast
  have 6: "0 < num_lines \<and> amplitude \<noteq> 0 \<longrightarrow>
            (\<forall>p. 0 < p \<and> p < sqrt (real w ^ 2 + real h ^ 2) / of_int num_lines \<longrightarrow>
               (\<exists>u. lines_pattern amplitude (wave_frequency num_lines w h) (u + p)
                   \<noteq> lines_pattern amplitude (wave_frequency num_lines w h) u))"
    unfolding dl [symmetric] using lines_pattern_no_shorter_period [OF _ h] by blast
  show ?thesis
    by (intro conjI 1 4 5 6 line_noise_shape [OF rect assms(2,3)])
qed

theorem line_noise_fringes_witness:
  "list_all (\<lambda>r. length r = 2) [[1, 2], [3, 4 :: real]] \<and>
   length [[1, 2], [3, 4 :: real]] = 2 \<and> (0 :: nat) < 2 \<and> (50 :: int) \<noteq> 0 \<and>
   line_noise [[1, 2], [3, 4]] 50 (1/10) 30 ! 0 ! 0 = 1 \<and>
   length (line_noise [[1, 2], [3, 4]] 50 (1/10) 30) = 2 \<and>
   wave_frequency 50 2 2 * sqrt (real 2 ^ 2 + real 2 ^ 2) = 50 * (2 * pi) \<and>
   lines_pattern (1/10) (wave_frequency 50 2 2) (7 + sqrt (real 2 ^ 2 + real 2 ^ 2) / 50)
     = lines_pattern (1/10) (wave_frequency 50 2 2) 7"
proof -
  have r: "list_all (\<lambda>r. length r = 2) [[1, 2], [3, 4 :: real]]" by simp
  have n: "(50 :: int) \<noteq> 0" by simp
  have l: "length [[1, 2], [3, 4 :: real]] = 2" and y: "(0 :: nat) < 2" by simp_all
  note t = line_noise_fringes [OF r l y y, where num_lines = 50 and amplitude = "1/10" and angle = 30]
  have 1: "line_noise [[1, 2], [3, 4]] 50 (1/10) 30 ! 0 ! 0 = 1"
    using t by simp
  have 2: "length (line_noise [[1, 2], [3, 4]] 50 (1/10) 30) = 2"
    using t by blast
  have 3: "wave_frequency 50 2 2 * sqrt (real 2 ^ 2 + real 2 ^ 2) = 50 * (2 * pi)"
    using t by simp
  have "\<forall>u. lines_pattern (1/10) (wave_frequency 50 2 2) (u + sqrt (real 2 ^ 2 + real 2 ^ 2) / of_int 50)
     = lines_pattern (1/10) (wave_frequency 50 2 2) u"
    using t n by blast
  then have 4: "lines_pattern (1/10) (wave_frequency 50 2 2) (7 + sqrt (real 2 ^ 2 + real 2 ^ 2) / 50)
     = lines_pattern (1/10) (wave_frequency 50 2 2) 7"
    by simp
  show ?thesis using r l 1 2 3 4 by simp
qed

section \<open>Facts about \<open>get_parameters\<close>\<close>

lemma andthen_Inr: "andthen r f = Inr y \<longleftrightarrow> (\<exists>x. r = Inr x \<and> f x = Inr y)"
  by (cases r) (simp_all add: andthen_def)

lemma andthen_Inr_arg: "andthen (Inr x) f = f x"
  by (simp add: andthen_def)


lemma returned_Inr: "returned r \<longleftrightarrow> (\<exists>x. r = Inr x)"
  by (cases r) (simp_all add: returned_def)

lemma has_shape_width: "has_shape a h w \<Longrightarrow> 0 < h \<Longrightarrow> width a = w"
  by (cases a) (simp_all add: has_shape_def width_def)

lemma has_shape_map: "has_shape (map (map f) a) h w = has_shape a h w"
  by (simp add: has_shape_def list_all_iff)

lemma has_shape_elements: "has_shape a h w \<Longrightarrow> 0 < h \<Longrightarrow> 0 < w \<Longrightarrow> concat a \<noteq> []"
  by (cases a) (auto simp add: has_shape_def)

lemma broadcast_to_shape: "broadcast_to H W a = Inr b \<Longrightarrow> has_shape b H W"
  by (auto simp add: broadcast_to_def Let_def has_shape_def list_all_iff split: if_splits)

lemma broadcast_to_returns:
  "returned (broadcast_to H W a) \<longleftrightarrow> (length a = H \<or> length a = 1) \<and> (width a = W \<or> width a = 1)"
  by (simp add: broadcast_to_def Let_def returned_def)


lemma input_shape_zeros: "input_shape (np_zeros4 1 4 256 256)"
  by (simp add: input_shape_def np_zeros4_def has_shape_def list_all_iff)

lemma input_shape_channel:
  assumes "input_shape E" "c < 4"
  shows "0 < length E" "c < length (E ! 0)" "length (E ! 0 ! c) = 256" "width (E ! 0 ! c) = 256"
proof -
  show "0 < length E" "c < length (E ! 0)" using assms by (simp_all add: input_shape_def)
  have hs: "has_shape (E ! 0 ! c) 256 256"
    using assms by (simp add: input_shape_def list_all_length)
  then show "length (E ! 0 ! c) = 256" by (simp add: has_shape_def)
  show "width (E ! 0 ! c) = 256" using has_shape_width [OF hs] by simp
qed

lemma assign_channel_Inr:
  assumes "input_shape E" "c < 4" "assign_channel E c a = Inr E'"
  shows "(length a = 256 \<or> length a = 1) \<and> (width a = 256 \<or> width a = 1) \<and> input_shape E'"
proof -
  note ch = input_shape_channel [OF assms(1,2)]
  from assms(3) obtain b where b: "broadcast_to 256 256 a = Inr b"
    and E': "E' = E[0 := (E ! 0)[c := b]]"
    using ch by (auto simp add: assign_channel_def split: sum.splits)
  have cond: "(length a = 256 \<or> length a = 1) \<and> (width a = 256 \<or> width a = 1)"
    using broadcast_to_returns [of 256 256 a] b by (simp add: returned_def)
  have hb: "has_shape b 256 256" by (rule broadcast_to_shape [OF b])
  have "list_all (\<lambda>ch. has_shape ch 256 256) ((E ! 0)[c := b])"
    using assms(1,2) hb unfolding input_shape_def list_all_length
    by (auto simp add: nth_list_update)
  then have "input_shape E'"
    using assms(1) ch(1) unfolding E' input_shape_def by simp
  with cond show ?thesis by simp
qed

lemma assign_channel_ok:
  assumes "input_shape E" "c < 4" "has_shape a h w" "h = 256 \<or> h = 1" "w = 256 \<or> w = 1"
  shows "\<exists>E'. assign_channel E c a = Inr E' \<and> input_shape E'"
proof -
  note ch = input_shape_channel [OF assms(1,2)]
  have h: "0 < h" using assms(4) by auto
  have la: "length a = h" using assms(3) by (simp add: has_shape_def)
  have wa: "width a = w" by (rule has_shape_width [OF assms(3) h])
  have "returned (broadcast_to 256 256 a)"
    unfolding broadcast_to_returns la wa using assms(4,5) by simp
  then obtain b where b: "broadcast_to 256 256 a = Inr b" by (auto simp add: returned_Inr)
  have eq: "assign_channel E c a = Inr (E[0 := (E ! 0)[c := b]])"
    using ch b by (simp add: assign_channel_def)
  from assign_channel_Inr [OF assms(1,2) eq] eq show ?thesis by blast
qed


lemma amin_returns: "xs \<noteq> [] \<Longrightarrow> \<exists>m. amin xs = Inr m"
  by (cases xs) (simp_all add: amin_def)

lemma amax_returns: "xs \<noteq> [] \<Longrightarrow> \<exists>m. amax xs = Inr m"
  by (cases xs) (simp_all add: amax_def)

lemma amin_Inr: "amin xs = Inr m \<Longrightarrow> xs \<noteq> []"
  by (cases xs) (simp_all add: amin_def)

lemma normalize_slice_Inr:
  assumes "normalize_slice d = Inr d'"
  shows "concat d \<noteq> [] \<and> (\<exists>f. d' = map (map f) d)"
proof -
  from assms obtain m M where m: "amin (concat d) = Inr m"
    and d': "d' = map (map (\<lambda>x. fl_div x M)) (map (map (\<lambda>x. fl_sub x m)) d)"
    by (auto simp add: normalize_slice_def Let_def split: sum.splits)
  have "d' = map (map ((\<lambda>x. fl_div x M) \<circ> (\<lambda>x. fl_sub x m))) d"
    unfolding d' by simp
  then show ?thesis using amin_Inr [OF m] by blast
qed

lemma normalize_slice_returns:
  assumes "concat d \<noteq> []"
  shows "\<exists>d'. normalize_slice d = Inr d'"
proof -
  from amin_returns [OF assms] obtain m where m: "amin (concat d) = Inr m" by blast
  have "concat (map (map (\<lambda>x. fl_sub x m)) d) \<noteq> []"
    using assms by (simp add: map_concat [symmetric])
  from amax_returns [OF this] obtain M where
    M: "amax (concat (map (map (\<lambda>x. fl_sub x m)) d)) = Inr M" by blast
  show ?thesis by (simp add: normalize_slice_def Let_def m M)
qed

lemma normalize_slice_shape:
  "normalize_slice d = Inr d' \<Longrightarrow> has_shape d' h w = has_shape d h w"
  using normalize_slice_Inr [of d d'] by (auto simp add: has_shape_map)

lemma grid_min_Inr: "grid_min a = Inr m \<longleftrightarrow> a \<noteq> [] \<and> m = Min (set a)"
  by (cases a) (auto simp add: grid_min_def)

lemma grid_max_Inr: "grid_max a = Inr m \<longleftrightarrow> a \<noteq> [] \<and> m = Max (set a)"
  by (cases a) (auto simp add: grid_max_def)

lemma zoom_factors_Inr:
  "zoom_factors res field = Inr f \<longleftrightarrow>
     field \<noteq> [] \<and> width field \<noteq> 0 \<and>
     f = (of_int res / real (length field), of_int res / real (width field))"
  by (auto simp add: zoom_factors_def)

lemma get_parameters_returns:
  assumes "get_parameters ext field (n2, in_power, alpha, isat, waist, nl_length, delta_z, len)
             (c1, c2, c3, res) flag = Inr r"
  shows "\<exists>zd de E0 E1 E2 E3 outputs.
      n2 \<noteq> [] \<and> isat \<noteq> [] \<and> alpha \<noteq> [] \<and> field \<noteq> [] \<and> width field \<noteq> 0 \<and>
      zoom ext (map (map cmod) field)
           (of_int res / real (length field), of_int res / real (width field)) = Inr zd \<and>
      normalize_slice (map (map Fin) zd) = Inr de \<and>
      (\<exists>hdn. hog ext de = Inr hdn) \<and>
      assign_channel (np_zeros4 1 4 256 256) 0 de = Inr E0 \<and>
      (\<exists>a. assign_channel E0 1 a = Inr E1) \<and>
      (\<exists>a. assign_channel E1 2 a = Inr E2) \<and>
      (\<exists>a. assign_channel E2 3 a = Inr E3) \<and>
      cnn ext E3 = Inr outputs \<and>
      r = (fl_mul (fst outputs) (Fin (Min (set n2))),
           fl_mul (fst (snd outputs)) (Fin (Max (set isat))),
           fl_mul (snd (snd outputs)) (Fin (Max (set alpha))))"
  using assms
  unfolding get_parameters_def prod.case andthen_Inr grid_min_Inr grid_max_Inr zoom_factors_Inr Let_def
  apply (auto split: if_splits simp add: andthen_Inr)
    apply blast+
  done

lemma width_map: "width (map (map f) a) = width a"
  by (cases a) (simp_all add: width_def)

lemma zoomed_and_normalized:
  assumes zc: "zoom_contract ext" and zr: "\<And>a f. returned (zoom ext a f)"
    and f: "field \<noteq> []" "width field \<noteq> 0" and res: "0 < res"
  shows "\<exists>zd de. zoom ext (map (map g) field)
              (of_int res / real (length field), of_int res / real (width field)) = Inr zd \<and>
            normalize_slice (map (map Fin) zd) = Inr de \<and> has_shape de (nat res) (nat res)"
proof -
  let ?f = "(of_int res / real (length field), of_int res / real (width field))"
  from zr [of "map (map g) field" ?f] obtain zd where
    zd: "zoom ext (map (map g) field) ?f = Inr zd" by (auto simp add: returned_Inr)
  have "has_shape zd (nat (round (real (length (map (map g) field)) * fst ?f)))
                     (nat (round (real (width (map (map g) field)) * snd ?f)))"
    using zc zd unfolding zoom_contract_def by blast
  then have hz: "has_shape zd (nat res) (nat res)"
    using f by (simp add: width_map)
  have pos: "0 < nat res" using res by simp
  have "concat (map (map Fin) zd) \<noteq> []"
    by (rule has_shape_elements [OF _ pos pos]) (simp add: has_shape_map hz)
  from normalize_slice_returns [OF this] obtain de where
    de: "normalize_slice (map (map Fin) zd) = Inr de" by blast
  have "has_shape de (nat res) (nat res)"
    using normalize_slice_shape [OF de, of "nat res" "nat res"] by (simp add: has_shape_map hz)
  with zd de show ?thesis by blast
qed


lemma stages_return:
  assumes zc: "zoom_contract ext"
    and zr: "\<And>a f. returned (zoom ext a f)"
    and hr: "\<And>a. 12 \<le> length a \<Longrightarrow> 12 \<le> width a \<Longrightarrow> returned (hog ext a)"
    and f: "field \<noteq> []" "width field \<noteq> 0" and res: "12 \<le> res"
  shows "\<exists>zd de zp pe hp hdn.
      zoom ext (map (map cmod) field)
        (of_int res / real (length field), of_int res / real (width field)) = Inr zd \<and>
      normalize_slice (map (map Fin) zd) = Inr de \<and>
      zoom ext (map (map Arg) field)
        (of_int res / real (length field), of_int res / real (width field)) = Inr zp \<and>
      normalize_slice (map (map Fin) zp) = Inr pe \<and>
      hog ext pe = Inr hp \<and> hog ext de = Inr hdn \<and>
      has_shape de (nat res) (nat res) \<and> has_shape pe (nat res) (nat res)"
proof -
  let ?f = "(of_int res / real (length field), of_int res / real (width field))"
  have rp: "0 < res" using res by simp
  from zoomed_and_normalized [OF zc zr f rp, of cmod] obtain zd de where
    zd: "zoom ext (map (map cmod) field) ?f = Inr zd"
    and de: "normalize_slice (map (map Fin) zd) = Inr de"
    and sde: "has_shape de (nat res) (nat res)" by blast
  from zoomed_and_normalized [OF zc zr f rp, of Arg] obtain zp pe where
    zp: "zoom ext (map (map Arg) field) ?f = Inr zp"
    and pe: "normalize_slice (map (map Fin) zp) = Inr pe"
    and spe: "has_shape pe (nat res) (nat res)" by blast
  have n: "0 < nat res" "12 \<le> nat res" using res by simp_all
  have lde: "12 \<le> length de" "12 \<le> width de"
    using sde has_shape_width [OF sde n(1)] n(2) by (simp_all add: has_shape_def)
  have lpe: "12 \<le> length pe" "12 \<le> width pe"
    using spe has_shape_width [OF spe n(1)] n(2) by (simp_all add: has_shape_def)
  from hr [OF lpe] obtain hp where hp: "hog ext pe = Inr hp" by (auto simp add: returned_Inr)
  from hr [OF lde] obtain hdn where hdn: "hog ext de = Inr hdn" by (auto simp add: returned_Inr)
  show ?thesis using zd de zp pe hp hdn sde spe by blast
qed

lemma get_parameters_success:
  assumes zc: "zoom_contract ext" and hc: "hog_contract ext"
    and zr: "\<And>a f. returned (zoom ext a f)"
    and hr: "\<And>a. 12 \<le> length a \<Longrightarrow> 12 \<le> width a \<Longrightarrow> returned (hog ext a)"
    and cr: "\<And>E. returned (cnn ext E)" and pr: "\<And>x. returned (compare ext x)"
    and g: "n2 \<noteq> []" "isat \<noteq> []" "alpha \<noteq> []"
    and f: "field \<noteq> []" "width field \<noteq> 0"
  shows "returned (get_parameters ext field (n2, in_power, alpha, isat, waist, nl_length, delta_z, len)
              (c1, c2, c3, 256) flag)"
proof -
  let ?f = "(of_int 256 / real (length field), of_int 256 / real (width field))"
  have r12: "(12 :: int) \<le> 256" by simp
  from stages_return [OF zc zr hr f r12] obtain zd de zp pe hp hdn where
    zd: "zoom ext (map (map cmod) field) ?f = Inr zd"
    and de: "normalize_slice (map (map Fin) zd) = Inr de"
    and zp: "zoom ext (map (map Arg) field) ?f = Inr zp"
    and pe: "normalize_slice (map (map Fin) zp) = Inr pe"
    and hp: "hog ext pe = Inr hp" and hdn: "hog ext de = Inr hdn"
    and sde: "has_shape de (nat 256) (nat 256)" and spe: "has_shape pe (nat 256) (nat 256)"
    by blast
  have shp: "has_shape hp (nat 256) (nat 256)" using hc hp spe unfolding hog_contract_def by blast
  have shd: "has_shape hdn (nat 256) (nat 256)" using hc hdn sde unfolding hog_contract_def by blast
  have r: "nat 256 = 256 \<or> nat 256 = 1" by simp
  have c: "(0 :: nat) < 4" "(1 :: nat) < 4" "(2 :: nat) < 4" "(3 :: nat) < 4" by simp_all
  from assign_channel_ok [OF input_shape_zeros c(1) sde r r] obtain E0 where
    E0: "assign_channel (np_zeros4 1 4 256 256) 0 de = Inr E0" "input_shape E0" by auto
  from assign_channel_ok [OF E0(2) c(2) shd r r] obtain E1 where
    E1: "assign_channel E0 1 hdn = Inr E1" "input_shape E1" by auto
  from assign_channel_ok [OF E1(2) c(3) spe r r] obtain E2 where
    E2: "assign_channel E1 2 pe = Inr E2" "input_shape E2" by auto
  from assign_channel_ok [OF E2(2) c(4) shp r r] obtain E3 where
    E3: "assign_channel E2 3 hp = Inr E3" "input_shape E3" by auto
  from cr [of E3] obtain outputs where out: "cnn ext E3 = Inr outputs"
    by (auto simp add: returned_Inr)
  have gm: "grid_min n2 = Inr (Min (set n2))" "grid_max isat = Inr (Max (set isat))"
    "grid_max alpha = Inr (Max (set alpha))"
    using g by (simp_all add: grid_min_Inr grid_max_Inr)
  have zf: "zoom_factors 256 field = Inr ?f" using f by (simp add: zoom_factors_Inr)
  show ?thesis
    unfolding get_parameters_def prod.case gm zf andthen_Inr_arg zd de zp pe hp hdn
      E0(1) E1(1) E2(1) E3(1) out Let_def
    using pr by (auto simp add: returned_Inr andthen_Inr_arg)
qed

lemma stub_env_facts:
  "zoom_contract stub_env" "hog_contract stub_env"
  "\<And>a f. returned (zoom stub_env a f)"
  "\<And>a. 12 \<le> length a \<Longrightarrow> 12 \<le> width a \<Longrightarrow> returned (hog stub_env a)"
  "\<And>E. returned (cnn stub_env E)" "\<And>x. returned (compare stub_env x)"
  by (auto simp add: zoom_contract_def hog_contract_def stub_env_def returned_def
      has_shape_def list_all_iff split: if_splits)

text \<open>
  C5: a call that returns gives back the three outputs of the network on the assembled
  tensor, each multiplied by a fixed extremum of the training grid taken from
  \<open>nlse_settings\<close>: \<open>computed_n2 = outputs_n2 * min n2\<close>,
  \<open>computed_isat = outputs_isat * max isat\<close>, \<open>computed_alpha = outputs_alpha * max alpha\<close>.
\<close>

theorem get_parameters_denormalize:
  assumes "get_parameters ext field (n2, in_power, alpha, isat, waist, nl_length, delta_z, len)
             (c1, c2, c3, res) flag = Inr (computed_n2, computed_isat, computed_alpha)"
  shows "\<exists>E outputs_n2 outputs_isat outputs_alpha.
      cnn ext E = Inr (outputs_n2, outputs_isat, outputs_alpha) \<and>
      computed_n2 = fl_mul outputs_n2 (Fin (Min (set n2))) \<and>
      computed_isat = fl_mul outputs_isat (Fin (Max (set isat))) \<and>
      computed_alpha = fl_mul outputs_alpha (Fin (Max (set alpha))) \<and>
      n2 \<noteq> [] \<and> isat \<noteq> [] \<and> alpha \<noteq> []"
proof -
  from get_parameters_returns [OF assms] obtain E3 outputs where
    g: "n2 \<noteq> []" "isat \<noteq> []" "alpha \<noteq> []"
    and out: "cnn ext E3 = Inr outputs"
    and r: "(computed_n2, computed_isat, computed_alpha) =
          (fl_mul (fst outputs) (Fin (Min (set n2))),
           fl_mul (fst (snd outputs)) (Fin (Max (set isat))),
           fl_mul (snd (snd outputs)) (Fin (Max (set alpha))))"
    by blast
  have "cnn ext E3 = Inr (fst outputs, fst (snd outputs), snd (snd outputs))"
    using out by simp
  then show ?thesis using r g by blast
qed

theorem get_parameters_denormalize_witness:
  "get_parameters stub_env [[Complex 3 4, 1], [2, \<i>]] ([-2, -1], 1, [10, 20], [5, 6], 1, 1, 1, 1)
       ((), (), (), 256) False
     = Inr (Fin (-1), Fin 3, Fin 20)"
proof -
  have "returned (get_parameters stub_env [[Complex 3 4, 1], [2, \<i>]]
       ([-2, -1], 1, [10, 20], [5, 6], 1, 1, 1, 1) ((), (), (), 256) False)"
    by (rule get_parameters_success [OF stub_env_facts]) (simp_all add: width_def)
  then obtain a b c where r: "get_parameters stub_env [[Complex 3 4, 1], [2, \<i>]]
       ([-2, -1], 1, [10, 20], [5, 6], 1, 1, 1, 1) ((), (), (), 256) False = Inr (a, b, c)"
    by (auto simp add: returned_Inr)
  from get_parameters_denormalize [OF r] obtain E o1 o2 o3 where
    o: "cnn stub_env E = Inr (o1, o2, o3)"
    and v: "a = fl_mul o1 (Fin (Min (set [-2, -1])))" "b = fl_mul o2 (Fin (Max (set [5, 6])))"
      "c = fl_mul o3 (Fin (Max (set [10, 20])))"
    by blast
  from o have "o1 = Fin (1/2)" "o2 = Fin (1/2)" "o3 = Fin 1" by (auto simp add: stub_env_def)
  with v have "a = Fin (-1)" "b = Fin 3" "c = Fin 20" by simp_all
  with r show ?thesis by simp
qed



end
